theory Spec2Isabelle
  imports Complex_Main "HOL-Library.Multiset" "HOL-Library.Log_Nat"
begin

section \<open>Python values and exceptions\<close>

text \<open>
  Python's unbounded integers are \<^typ>\<open>int\<close>; \<open>%\<close> and \<open>//\<close> are the floor
  operations, as \<open>mod\<close> and \<open>div\<close> on \<^typ>\<open>int\<close> are. Division by zero raises in
  Python, so every quotient below is guarded. An exception is a value of \<open>error\<close>; a
  function that may raise returns \<open>error + 'a\<close>, with \<open>Inl\<close> for the exception.
\<close>

datatype error =
    ValueError string
  | ZeroDivisionError
  | IndexError
  | StatisticsError
  | IOError
  | OverflowError
  | BrokenProcessPool

subsection \<open>\<open>str.lower\<close> on ASCII strings\<close>

definition lower_char :: "char \<Rightarrow> char" where
  "lower_char c =
     (let n = (of_char c :: nat) in if 65 \<le> n \<and> n \<le> 90 then char_of (n + 32) else c)"

definition lower :: "string \<Rightarrow> string" where
  "lower s = map lower_char s"

subsection \<open>The format specification \<open>04d\<close>\<close>

fun digits :: "nat \<Rightarrow> string" where
  "digits n =
     (if n < 10 then [char_of (48 + n)] else digits (n div 10) @ [char_of (48 + n mod 10)])"

definition zfill :: "nat \<Rightarrow> string \<Rightarrow> string" where
  "zfill w s = replicate (w - length s) CHR ''0'' @ s"

definition format_04d :: "int \<Rightarrow> string" where
  "format_04d n =
     (if n < 0 then CHR ''-'' # zfill 3 (digits (nat (- n))) else zfill 4 (digits (nat n)))"

subsection \<open>List indexing\<close>

text \<open>\<open>xs[i]\<close>: a negative index counts from the end, an index out of range raises.\<close>

definition py_index :: "'a list \<Rightarrow> int \<Rightarrow> error + 'a" where
  "py_index xs i =
     (if 0 \<le> i
      then (if i < int (length xs) then Inr (xs ! nat i) else Inl IndexError)
      else (if - i \<le> int (length xs) then Inr (xs ! nat (int (length xs) + i))
            else Inl IndexError))"

subsection \<open>Floating point\<close>

text \<open>
  A finite double is the real number it denotes. Every arithmetic operation on doubles
  is the exact operation followed by \<open>fl\<close>, rounding to the nearest double, ties to
  even: the doubles from \<open>2^-1022\<close> on have a 53-bit significand, the smaller ones
  (the subnormal numbers) are the multiples of \<open>2^-1074\<close>, so a tiny result underflows
  to 0. A result of magnitude \<open>2^1024\<close> or more is an overflow: \<open>a / b\<close> on two integers
  raises \<open>OverflowError\<close> there, as \<open>int_truediv\<close> does. \<open>fl\<close> itself does not bound
  the magnitude: the other operations are Python's as long as their results stay
  below \<open>2^1024\<close>.
  Comparisons, \<open>abs\<close>, \<open>min\<close> and \<open>max\<close> of doubles are exact.
\<close>

type_synonym float = real

definition round_half_even :: "real \<Rightarrow> int" where
  "round_half_even x =
     (let f = \<lfloor>x\<rfloor>; r = x - of_int f in
      if r < 1 / 2 then f else if 1 / 2 < r then f + 1 else if even f then f else f + 1)"

text \<open>\<open>floor_log2 x\<close> is the integer \<open>L\<close> with \<open>2^L \<le> x < 2^(L+1)\<close>, for positive \<open>x\<close>.\<close>

definition floor_log2 :: "real \<Rightarrow> int" where
  "floor_log2 x =
     (if 1 \<le> x then int (floorlog 2 (nat \<lfloor>x\<rfloor>)) - 1
      else let k = int (floorlog 2 (nat \<lfloor>1 / x\<rfloor>)) - 1 in
        if x * 2 powi k = 1 then - k else - (k + 1))"

definition fl :: "real \<Rightarrow> float" where
  "fl x =
     (if x = 0 then 0
      else let e = max (floor_log2 \<bar>x\<bar> - 52) (- 1074) in
        sgn x * of_int (round_half_even (\<bar>x\<bar> / 2 powi e)) * 2 powi e)"

text \<open>
  \<open>a / b\<close> on two integers is the correctly rounded quotient, and raises when the
  divisor is 0 or the quotient overflows. Where the divisor is the constant 1000 or
  1000000 and the dividend a difference of timestamps, the quotient is written
  \<open>fl (a / d)\<close>. An integer operand of an operation with a double is converted first.
\<close>

definition overflow_bound :: real where
  "overflow_bound = 2 ^ 1024"

definition min_normal :: real where
  "min_normal = 2 powi (- 1022)"

definition int_truediv :: "int \<Rightarrow> int \<Rightarrow> error + float" where
  "int_truediv a b =
     (if b = 0 then Inl ZeroDivisionError
      else if overflow_bound \<le> \<bar>fl (of_int a / of_int b)\<bar> then Inl OverflowError
      else Inr (fl (of_int a / of_int b)))"

definition float_of_int :: "int \<Rightarrow> float" where
  "float_of_int n = fl (of_int n)"

definition fmul :: "float \<Rightarrow> float \<Rightarrow> float" where
  "fmul x y = fl (x * y)"

definition fsub :: "float \<Rightarrow> float \<Rightarrow> float" where
  "fsub x y = fl (x - y)"

subsection \<open>The \<open>statistics\<close> module and the builtins \<open>min\<close>, \<open>max\<close>\<close>

text \<open>
  \<open>statistics.mean\<close> sums its data exactly, as fractions, and rounds the quotient once.
  \<open>statistics.stdev\<close> is a parameter \<open>stdev\<close> of the functions that call it: no
  property below depends on its value.
\<close>

definition mean :: "float list \<Rightarrow> error + float" where
  "mean xs = (if xs = [] then Inl StatisticsError
              else Inr (fl (sum_list xs / of_nat (length xs))))"

definition py_min :: "float list \<Rightarrow> error + float" where
  "py_min xs = (case xs of [] \<Rightarrow> Inl (ValueError ''min() arg is an empty sequence'')
                | x # r \<Rightarrow> Inr (fold min r x))"

definition py_max :: "float list \<Rightarrow> error + float" where
  "py_max xs = (case xs of [] \<Rightarrow> Inl (ValueError ''max() arg is an empty sequence'')
                | x # r \<Rightarrow> Inr (fold max r x))"

section \<open>frame_extraction.py\<close>

record ExtractedFrame =
  global_frame_number :: int
  camera_id :: string
  file_path :: string

record FrameExtractor =
  sampling_interval :: int
  output_format :: string
  enable_overlay :: bool
  overlay_font_size :: int
  overlay_position :: string

text \<open>\<open>FrameExtractor.__init__\<close>: refuses an interval below 1 and an unknown format.\<close>

definition FrameExtractor_init ::
  "int \<Rightarrow> string \<Rightarrow> bool \<Rightarrow> int \<Rightarrow> string \<Rightarrow> error + FrameExtractor" where
  "FrameExtractor_init interval fmt overlay font_size pos =
     (if interval < 1 then Inl (ValueError ''sampling_interval must be >= 1'')
      else let normalized_format = lower fmt in
        if normalized_format \<notin> set [''png'', ''jpg'', ''jpeg'']
        then Inl (ValueError ''output_format must be png, jpg, or jpeg'')
        else Inr \<lparr> sampling_interval = interval, output_format = normalized_format,
                   enable_overlay = overlay, overlay_font_size = font_size,
                   overlay_position = pos \<rparr>)"

text \<open>
  \<open>FrameExtractor.should_extract_frame\<close>. The early return for numbers below 1 comes
  first, as in the source; the modulus raises on a zero interval.
\<close>

definition should_extract_frame :: "FrameExtractor \<Rightarrow> int \<Rightarrow> error + bool" where
  "should_extract_frame self g =
     (if g < 1 then Inr False
      else if sampling_interval self = 0 then Inl ZeroDivisionError
      else Inr ((g - 1) mod sampling_interval self = 0))"

text \<open>
  The numbers of \<open>1..F\<close> that the predicate accepts, in increasing order: the generator
  \<open>i for i in range(1, F + 1) if extractor.should_extract_frame(i)\<close> of \<open>main.py\<close>.
\<close>

definition accepted_frames :: "FrameExtractor \<Rightarrow> int \<Rightarrow> int list" where
  "accepted_frames self F = filter (\<lambda>g. should_extract_frame self g = Inr True) [1..F]"

text \<open>
  A decoded raster, as far as \<open>save_frame\<close> observes it: whether it is \<open>None\<close> or empty,
  and what \<open>cv2.imwrite\<close> does with it (the image library is external).
\<close>

datatype imwrite_outcome = Written | ReturnedFalse | Raised

record frame =
  none_or_empty :: bool
  imwrite :: imwrite_outcome

text \<open>
  \<open>FrameExtractor.save_frame\<close>: the file is \<open>output_dir / frame_XXXX.ext\<close>. The overlay
  changes pixels only. Every exception of \<open>save_frame\<close> is handled alike by its callers;
  a failing \<open>mkdir\<close> counts as a write that raised.
\<close>

definition frame_filename :: "FrameExtractor \<Rightarrow> int \<Rightarrow> string" where
  "frame_filename self g = ''frame_'' @ format_04d g @ ''.'' @ output_format self"

definition save_frame :: "FrameExtractor \<Rightarrow> frame \<Rightarrow> int \<Rightarrow> string \<Rightarrow> string \<Rightarrow> error + string" where
  "save_frame self fr g out_dir cam =
     (if none_or_empty fr then Inl (ValueError ''Frame is None or empty'')
      else case imwrite fr of
             Written \<Rightarrow> Inr (out_dir @ ''/'' @ frame_filename self g)
           | ReturnedFalse \<Rightarrow> Inl IOError
           | Raised \<Rightarrow> Inl IOError)"

text \<open>
  What the decoder gives for a file: it cannot be opened (\<open>_open_video\<close> returns
  \<open>None\<close>), or it yields frames until \<open>read\<close> returns \<open>ret = False\<close> or raises.
\<close>

datatype stream_end = EndOfStream | ReadRaises

datatype video = Unopenable | Opened "frame list" stream_end

section \<open>video_discovery.py\<close>

record VideoSegment =
  segment_camera_id :: string
  segment_number :: int
  segment_file_path :: string
  frame_count :: int

text \<open>
  \<open>VideoDiscovery.validate_frame_count_difference\<close>. The totals are integers, the
  percentage a double: \<open>(absolute_diff / max_frames) * 100.0\<close> rounds twice.
\<close>

definition validate_frame_count_difference :: "int \<Rightarrow> int \<Rightarrow> float \<Rightarrow> error + bool \<times> float \<times> int" where
  "validate_frame_count_difference cam0_total cam1_total threshold_percent =
     (if cam0_total = 0 \<and> cam1_total = 0 then Inr (False, 0, 0)
      else let absolute_diff = \<bar>cam0_total - cam1_total\<bar>;
               max_frames = max cam0_total cam1_total in
        case (if max_frames = 0 then Inr 0
              else case int_truediv absolute_diff max_frames of
                     Inl e \<Rightarrow> Inl e
                   | Inr q \<Rightarrow> Inr (fmul q 100)) of
          Inl e \<Rightarrow> Inl e
        | Inr difference_percent \<Rightarrow>
            Inr (difference_percent > threshold_percent, difference_percent, absolute_diff))"

section \<open>multiprocess_extraction.py\<close>

record SegmentExtractionTask =
  segment :: VideoSegment
  task_camera_id :: string
  output_dir :: string
  task_sampling_interval :: int
  task_output_format :: string
  task_enable_overlay :: bool
  task_overlay_font_size :: int
  task_overlay_position :: string
  global_frame_offset :: int

text \<open>
  The \<open>while True\<close> loop of \<open>extract_segment_frames\<close> over the frames the decoder
  yields. \<open>local_frame_number\<close> and \<open>extracted_frames\<close> are the loop's variables. A
  frame whose \<open>save_frame\<close> raises is logged and skipped; an exception of
  \<open>should_extract_frame\<close> leaves the loop.
\<close>

fun extract_loop ::
  "FrameExtractor \<Rightarrow> SegmentExtractionTask \<Rightarrow> frame list \<Rightarrow> int \<Rightarrow> ExtractedFrame list
   \<Rightarrow> error + ExtractedFrame list" where
  "extract_loop extractor task [] local_frame_number extracted_frames = Inr extracted_frames"
| "extract_loop extractor task (fr # rest) local_frame_number extracted_frames =
     (let local_frame_number = local_frame_number + 1;
          g = global_frame_offset task + local_frame_number in
      case should_extract_frame extractor g of
        Inl e \<Rightarrow> Inl e
      | Inr False \<Rightarrow> extract_loop extractor task rest local_frame_number extracted_frames
      | Inr True \<Rightarrow>
          (case save_frame extractor fr g (output_dir task) (task_camera_id task) of
             Inl e \<Rightarrow> extract_loop extractor task rest local_frame_number extracted_frames
           | Inr path \<Rightarrow>
               extract_loop extractor task rest local_frame_number
                 (extracted_frames @
                  [\<lparr> global_frame_number = g, camera_id = task_camera_id task,
                     file_path = path \<rparr>])))"

text \<open>
  \<open>extract_segment_frames\<close>, the body of one worker. \<open>decoder\<close> says what the external
  decoder does with each file. Every exception inside the \<open>try\<close> ends in
  \<open>return []\<close>: the constructor's, the loop's, and a raising \<open>read\<close>.
\<close>

definition extract_segment_frames ::
  "(string \<Rightarrow> video) \<Rightarrow> SegmentExtractionTask \<Rightarrow> ExtractedFrame list" where
  "extract_segment_frames decoder task =
     (case FrameExtractor_init (task_sampling_interval task) (task_output_format task)
             (task_enable_overlay task) (task_overlay_font_size task)
             (task_overlay_position task) of
        Inl e \<Rightarrow> []
      | Inr extractor \<Rightarrow>
          (case decoder (segment_file_path (segment task)) of
             Unopenable \<Rightarrow> []
           | Opened frames ending \<Rightarrow>
               (case extract_loop extractor task frames 0 [] of
                  Inl e \<Rightarrow> []
                | Inr extracted_frames \<Rightarrow>
                    (case ending of EndOfStream \<Rightarrow> extracted_frames | ReadRaises \<Rightarrow> []))))"

record MultiprocessExtractor =
  max_workers :: int

text \<open>The dictionary \<open>extractor_config\<close>, unpacked into each task.\<close>

record extractor_config =
  config_sampling_interval :: int
  config_output_format :: string
  config_enable_overlay :: bool
  config_overlay_font_size :: int
  config_overlay_position :: string

text \<open>The dictionary \<open>extraction_dirs\<close>, with its two keys.\<close>

record extraction_dirs =
  cam0_dir :: string
  cam1_dir :: string

text \<open>
  The two \<open>for segment in sorted(...)\<close> loops of \<open>extract_all_frames\<close>: one task per
  segment, carrying the running offset. \<open>sorted\<close> is stable, as \<open>sort_key\<close> is.
\<close>

fun make_tasks ::
  "string \<Rightarrow> string \<Rightarrow> extractor_config \<Rightarrow> VideoSegment list \<Rightarrow> int \<Rightarrow> SegmentExtractionTask list" where
  "make_tasks cam dir cfg [] offset = []"
| "make_tasks cam dir cfg (s # rest) offset =
     \<lparr> segment = s, task_camera_id = cam, output_dir = dir,
       task_sampling_interval = config_sampling_interval cfg,
       task_output_format = config_output_format cfg,
       task_enable_overlay = config_enable_overlay cfg,
       task_overlay_font_size = config_overlay_font_size cfg,
       task_overlay_position = config_overlay_position cfg,
       global_frame_offset = offset \<rparr>
     # make_tasks cam dir cfg rest (offset + frame_count s)"

definition camera_tasks ::
  "string \<Rightarrow> string \<Rightarrow> extractor_config \<Rightarrow> VideoSegment list \<Rightarrow> SegmentExtractionTask list" where
  "camera_tasks cam dir cfg segments = make_tasks cam dir cfg (sort_key segment_number segments) 0"

definition all_tasks ::
  "VideoSegment list \<Rightarrow> VideoSegment list \<Rightarrow> extraction_dirs \<Rightarrow> extractor_config
   \<Rightarrow> SegmentExtractionTask list" where
  "all_tasks cam0_segments cam1_segments dirs cfg =
     camera_tasks ''cam0'' (cam0_dir dirs) cfg cam0_segments @
     camera_tasks ''cam1'' (cam1_dir dirs) cfg cam1_segments"

text \<open>
  The process pool, as the scheduler observes it: whether \<open>executor.submit\<close> raises
  for a task (the pool is broken by then: a worker process has died), the order in
  which \<open>as_completed\<close> yields the submitted tasks' futures, and whether
  \<open>future.result\<close> raises (a timeout, a broken pool) instead of returning what the
  worker returned.
\<close>

record pool =
  submit_raises :: "SegmentExtractionTask \<Rightarrow> bool"
  as_completed :: "SegmentExtractionTask list \<Rightarrow> SegmentExtractionTask list"
  result_raises :: "SegmentExtractionTask \<Rightarrow> bool"

text \<open>The \<open>for future in as_completed(...)\<close> loop, on the two result lists.\<close>

fun collect_results ::
  "(string \<Rightarrow> video) \<Rightarrow> pool \<Rightarrow> SegmentExtractionTask list
   \<Rightarrow> ExtractedFrame list \<times> ExtractedFrame list \<Rightarrow> ExtractedFrame list \<times> ExtractedFrame list" where
  "collect_results decoder p [] (cam0_results, cam1_results) = (cam0_results, cam1_results)"
| "collect_results decoder p (task # rest) (cam0_results, cam1_results) =
     (if result_raises p task then collect_results decoder p rest (cam0_results, cam1_results)
      else let frames = extract_segment_frames decoder task in
        if task_camera_id task = ''cam0''
        then collect_results decoder p rest (cam0_results @ frames, cam1_results)
        else collect_results decoder p rest (cam0_results, cam1_results @ frames))"

text \<open>
  \<open>MultiprocessExtractor.extract_all_frames\<close>. The \<open>try\<close> around the pool has a
  \<open>finally\<close> and no \<open>except\<close>: \<open>ProcessPoolExecutor\<close> raising on a worker count
  below 1 and \<open>executor.submit\<close> raising on a broken pool leave the function. An
  exception of \<open>future.result\<close> is caught in the loop. There is no check for a camera
  without segments. \<open>list.sort\<close> is stable.
\<close>

definition extract_all_frames ::
  "MultiprocessExtractor \<Rightarrow> (string \<Rightarrow> video) \<Rightarrow> pool \<Rightarrow> VideoSegment list \<Rightarrow> VideoSegment list
   \<Rightarrow> extraction_dirs \<Rightarrow> extractor_config \<Rightarrow> error + ExtractedFrame list \<times> ExtractedFrame list" where
  "extract_all_frames self decoder p cam0_segments cam1_segments dirs cfg =
     (let tasks = all_tasks cam0_segments cam1_segments dirs cfg in
      if max_workers self \<le> 0 then Inl (ValueError ''max_workers must be greater than 0'')
      else if list_ex (submit_raises p) tasks then Inl BrokenProcessPool
      else let (cam0_results, cam1_results) =
                 collect_results decoder p (as_completed p tasks) ([], []) in
        Inr (sort_key global_frame_number cam0_results,
             sort_key global_frame_number cam1_results))"

section \<open>frame_stitching.py: finding the pairs\<close>

text \<open>
  The comprehension \<open>{frame.global_frame_number: frame for frame in frames}\<close>: a later
  frame with the same number replaces an earlier one.
\<close>

definition frame_map :: "ExtractedFrame list \<Rightarrow> (int \<rightharpoonup> ExtractedFrame)" where
  "frame_map frames = fold (\<lambda>fr m. m(global_frame_number fr \<mapsto> fr)) frames Map.empty"

text \<open>The local variables \<open>common_frame_numbers\<close>, \<open>cam0_only\<close> and \<open>cam1_only\<close>.\<close>

definition common_frame_numbers :: "ExtractedFrame list \<Rightarrow> ExtractedFrame list \<Rightarrow> int list" where
  "common_frame_numbers cam0_frames cam1_frames =
     sorted_list_of_set (dom (frame_map cam0_frames) \<inter> dom (frame_map cam1_frames))"

definition cam0_only :: "ExtractedFrame list \<Rightarrow> ExtractedFrame list \<Rightarrow> int set" where
  "cam0_only cam0_frames cam1_frames = dom (frame_map cam0_frames) - dom (frame_map cam1_frames)"

definition cam1_only :: "ExtractedFrame list \<Rightarrow> ExtractedFrame list \<Rightarrow> int set" where
  "cam1_only cam0_frames cam1_frames = dom (frame_map cam1_frames) - dom (frame_map cam0_frames)"

text \<open>The two messages of \<open>logger.warning\<close>, each with the count it prints.\<close>

datatype pairing_warning = Cam0WithoutCam1 nat | Cam1WithoutCam0 nat

text \<open>\<open>d[k]\<close> on a dictionary raises \<open>KeyError\<close> on a missing key.\<close>

datatype key_error = KeyError int

fun make_pairs ::
  "(int \<rightharpoonup> ExtractedFrame) \<Rightarrow> (int \<rightharpoonup> ExtractedFrame) \<Rightarrow> int list
   \<Rightarrow> key_error + (ExtractedFrame \<times> ExtractedFrame) list" where
  "make_pairs cam0_map cam1_map [] = Inr []"
| "make_pairs cam0_map cam1_map (num # rest) =
     (case cam0_map num of
        None \<Rightarrow> Inl (KeyError num)
      | Some a \<Rightarrow>
          (case cam1_map num of
             None \<Rightarrow> Inl (KeyError num)
           | Some b \<Rightarrow>
               (case make_pairs cam0_map cam1_map rest of
                  Inl e \<Rightarrow> Inl e
                | Inr pairs \<Rightarrow> Inr ((a, b) # pairs))))"

text \<open>
  \<open>FrameStitcher.find_frame_pairs\<close>: the pairs it returns and the warnings it logs.
\<close>

definition find_frame_pairs ::
  "ExtractedFrame list \<Rightarrow> ExtractedFrame list
   \<Rightarrow> key_error + (ExtractedFrame \<times> ExtractedFrame) list \<times> pairing_warning list" where
  "find_frame_pairs cam0_frames cam1_frames =
     (let cam0_map = frame_map cam0_frames;
          cam1_map = frame_map cam1_frames;
          warnings =
            (if cam0_only cam0_frames cam1_frames \<noteq> {}
             then [Cam0WithoutCam1 (card (cam0_only cam0_frames cam1_frames))] else []) @
            (if cam1_only cam0_frames cam1_frames \<noteq> {}
             then [Cam1WithoutCam0 (card (cam1_only cam0_frames cam1_frames))] else [])
      in case make_pairs cam0_map cam1_map (common_frame_numbers cam0_frames cam1_frames) of
           Inl e \<Rightarrow> Inl e
         | Inr pairs \<Rightarrow> Inr (pairs, warnings))"

section \<open>timestamp_analysis.py\<close>

text \<open>One line of a timestamp log: the keys \<open>i\<close> and \<open>pts_us\<close>.\<close>

record TimestampRecord =
  frame_index :: int
  pts_us :: int

record TimestampStats =
  total_frames :: int
  start_time_us :: int
  end_time_us :: int
  duration_seconds :: float
  avg_framerate :: float
  avg_frame_interval_ms :: float
  frame_interval_std_ms :: float
  min_interval_ms :: float
  max_interval_ms :: float

text \<open>The dictionary \<open>drift_distribution\<close>, with its four keys.\<close>

record distribution =
  under_10ms :: nat
  from_10_to_30ms :: nat
  from_30_to_50ms :: nat
  over_50ms :: nat

text \<open>The ratings, for the four strings the source returns.\<close>

datatype rating = Excellent | Good | Fair | Poor

text \<open>The recommendation strings, each with the number it prints.\<close>

datatype recommendation =
    UseTimestampsSuggested
  | UseTimestampsStronglySuggested
  | UseTimestampsRequired
  | MaxDriftDetected float
  | FewFramesUnder10ms float
  | FrameNumberPairingSuffices

record SyncAnalysis =
  cam0_stats :: TimestampStats
  cam1_stats :: TimestampStats
  start_delay_ms :: float
  duration_diff_seconds :: float
  avg_time_drift_ms :: float
  max_time_drift_ms :: float
  time_drift_std_ms :: float
  drift_distribution :: distribution
  sample_drifts :: "(int \<times> float \<times> float \<times> float) list"
  overall_rating :: rating
  recommendations :: "recommendation list"

record TimestampAnalyzer =
  sync_threshold_ms :: float
  sample_points :: int

text \<open>The intervals between consecutive records, in milliseconds.\<close>

fun intervals_ms :: "TimestampRecord list \<Rightarrow> float list" where
  "intervals_ms (a # b # rest) = fl (of_int (pts_us b - pts_us a) / 1000) # intervals_ms (b # rest)"
| "intervals_ms _ = []"

text \<open>\<open>TimestampAnalyzer.calculate_timestamp_stats\<close>.\<close>

definition calculate_timestamp_stats ::
  "(float list \<Rightarrow> float) \<Rightarrow> TimestampRecord list \<Rightarrow> error + TimestampStats" where
  "calculate_timestamp_stats stdev timestamps =
     (if timestamps = [] \<or> length timestamps < 2
      then Inl (ValueError ''Need at least 2 timestamps for analysis'')
      else let total = int (length timestamps);
               start_us = pts_us (hd timestamps);
               end_us = pts_us (last timestamps);
               duration_us = end_us - start_us;
               duration = fl (of_int duration_us / 1000000);
               intervals = intervals_ms timestamps in
        case mean intervals of
          Inl e \<Rightarrow> Inl e
        | Inr avg_interval \<Rightarrow>
            (let interval_std = (if length intervals > 1 then stdev intervals else 0) in
             case py_min intervals of
               Inl e \<Rightarrow> Inl e
             | Inr min_interval \<Rightarrow>
                 (case py_max intervals of
                    Inl e \<Rightarrow> Inl e
                  | Inr max_interval \<Rightarrow>
                      Inr \<lparr> total_frames = total, start_time_us = start_us,
                            end_time_us = end_us, duration_seconds = duration,
                            avg_framerate =
                              (if duration > 0 then fl (float_of_int total / duration) else 0),
                            avg_frame_interval_ms = avg_interval,
                            frame_interval_std_ms = interval_std,
                            min_interval_ms = min_interval,
                            max_interval_ms = max_interval \<rparr>)))"

text \<open>
  The sample indices of \<open>analyze_time_drift\<close>. \<open>range(n)\<close> is empty for \<open>n \<le> 0\<close>, as
  \<open>[0..n - 1]\<close> is.
\<close>

definition sample_indices :: "TimestampAnalyzer \<Rightarrow> int \<Rightarrow> error + int list" where
  "sample_indices self min_frames =
     (if min_frames \<le> sample_points self then Inr [0..min_frames - 1]
      else if sample_points self = 0 then Inl ZeroDivisionError
      else let step = min_frames div sample_points self in
        Inr (map (\<lambda>i. i * step) [0..sample_points self - 1]))"

text \<open>
  The \<open>for idx in sample_indices\<close> loop: the lists \<open>drifts\<close> and \<open>sample_drifts\<close> it
  builds, in order.
\<close>

fun drift_loop ::
  "TimestampRecord list \<Rightarrow> TimestampRecord list \<Rightarrow> int list
   \<Rightarrow> error + float list \<times> (int \<times> float \<times> float \<times> float) list" where
  "drift_loop cam0_timestamps cam1_timestamps [] = Inr ([], [])"
| "drift_loop cam0_timestamps cam1_timestamps (idx # rest) =
     (case py_index cam0_timestamps idx of Inl e \<Rightarrow> Inl e | Inr t0 \<Rightarrow>
      case py_index cam1_timestamps idx of Inl e \<Rightarrow> Inl e | Inr t1 \<Rightarrow>
      case py_index cam0_timestamps 0 of Inl e \<Rightarrow> Inl e | Inr first0 \<Rightarrow>
      case py_index cam1_timestamps 0 of Inl e \<Rightarrow> Inl e | Inr first1 \<Rightarrow>
        (let cam0_time_us = pts_us t0;
             cam1_time_us = pts_us t1;
             drift_us = cam0_time_us - cam1_time_us;
             drift_ms = fl (of_int drift_us / 1000);
             cam0_time_s = fl (of_int (cam0_time_us - pts_us first0) / 1000000);
             cam1_time_s = fl (of_int (cam1_time_us - pts_us first1) / 1000000) in
         case drift_loop cam0_timestamps cam1_timestamps rest of
           Inl e \<Rightarrow> Inl e
         | Inr (drifts, samples) \<Rightarrow>
             Inr (\<bar>drift_ms\<bar> # drifts, (idx, cam0_time_s, cam1_time_s, drift_ms) # samples)))"

text \<open>The four generator sums of the distribution.\<close>

definition drift_buckets :: "float list \<Rightarrow> distribution" where
  "drift_buckets drifts =
     \<lparr> under_10ms = length (filter (\<lambda>d. d < 10) drifts),
       from_10_to_30ms = length (filter (\<lambda>d. 10 \<le> d \<and> d < 30) drifts),
       from_30_to_50ms = length (filter (\<lambda>d. 30 \<le> d \<and> d < 50) drifts),
       over_50ms = length (filter (\<lambda>d. d \<ge> 50) drifts) \<rparr>"

text \<open>\<open>TimestampAnalyzer.analyze_time_drift\<close>.\<close>

definition analyze_time_drift ::
  "(float list \<Rightarrow> float) \<Rightarrow> TimestampAnalyzer \<Rightarrow> TimestampRecord list \<Rightarrow> TimestampRecord list
   \<Rightarrow> error + float \<times> float \<times> float \<times> distribution \<times> (int \<times> float \<times> float \<times> float) list" where
  "analyze_time_drift stdev self cam0_timestamps cam1_timestamps =
     (let min_frames = min (int (length cam0_timestamps)) (int (length cam1_timestamps)) in
      case sample_indices self min_frames of
        Inl e \<Rightarrow> Inl e
      | Inr indices \<Rightarrow>
          (case drift_loop cam0_timestamps cam1_timestamps indices of
             Inl e \<Rightarrow> Inl e
           | Inr (drifts, samples) \<Rightarrow>
               (case mean drifts of
                  Inl e \<Rightarrow> Inl e
                | Inr avg_drift_ms \<Rightarrow>
                    (case py_max drifts of
                       Inl e \<Rightarrow> Inl e
                     | Inr max_drift_ms \<Rightarrow>
                         (let std_drift_ms = (if length drifts > 1 then stdev drifts else 0) in
                          Inr (avg_drift_ms, max_drift_ms, std_drift_ms,
                               drift_buckets drifts, samples))))))"

text \<open>
  \<open>TimestampAnalyzer._calculate_rating\<close>. The start delay has three classes, with
  the bounds 10 and 50; the average drift has four, with the bounds 10, 30 and 50.
\<close>

definition start_quality :: "float \<Rightarrow> rating" where
  "start_quality start_delay =
     (if \<bar>start_delay\<bar> < 10 then Excellent else if \<bar>start_delay\<bar> < 50 then Good else Fair)"

definition drift_quality :: "float \<Rightarrow> rating" where
  "drift_quality avg_drift =
     (if avg_drift < 10 then Excellent
      else if avg_drift < 30 then Good
      else if avg_drift < 50 then Fair
      else Poor)"

definition calculate_rating ::
  "TimestampAnalyzer \<Rightarrow> float \<Rightarrow> float \<Rightarrow> float \<Rightarrow> distribution \<Rightarrow> int
   \<Rightarrow> rating \<times> recommendation list" where
  "calculate_rating self start_delay avg_drift max_drift buckets total_samples =
     (let sq = start_quality start_delay;
          dq = drift_quality avg_drift;
          recs1 = (if avg_drift < 10 then []
                   else if avg_drift < 30 then [UseTimestampsSuggested]
                   else if avg_drift < 50 then [UseTimestampsStronglySuggested]
                   else [UseTimestampsRequired]);
          recs2 = (if max_drift > 100 then recs1 @ [MaxDriftDetected max_drift] else recs1);
          good_ratio = (if total_samples > 0
                        then fl (of_nat (under_10ms buckets) / of_int total_samples) else 0);
          recs3 = (if good_ratio < 1 / 2 then recs2 @ [FewFramesUnder10ms (fmul good_ratio 100)]
                   else recs2);
          overall = (if dq = Excellent \<and> sq = Excellent then Excellent
                     else if dq \<in> {Excellent, Good} \<and> sq \<in> {Excellent, Good} then Good
                     else if dq = Fair then Fair
                     else Poor)
      in (overall, if recs3 = [] then [FrameNumberPairingSuffices] else recs3))"

text \<open>\<open>TimestampAnalyzer.analyze_sync_quality\<close>.\<close>

definition analyze_sync_quality ::
  "(float list \<Rightarrow> float) \<Rightarrow> TimestampAnalyzer \<Rightarrow> TimestampRecord list \<Rightarrow> TimestampRecord list
   \<Rightarrow> error + SyncAnalysis" where
  "analyze_sync_quality stdev self cam0_timestamps cam1_timestamps =
     (case calculate_timestamp_stats stdev cam0_timestamps of Inl e \<Rightarrow> Inl e | Inr stats0 \<Rightarrow>
      case calculate_timestamp_stats stdev cam1_timestamps of Inl e \<Rightarrow> Inl e | Inr stats1 \<Rightarrow>
        (let start_delay_us = start_time_us stats0 - start_time_us stats1;
             start_delay = fl (of_int start_delay_us / 1000);
             duration_diff = fsub (duration_seconds stats0) (duration_seconds stats1) in
         case analyze_time_drift stdev self cam0_timestamps cam1_timestamps of
           Inl e \<Rightarrow> Inl e
         | Inr (avg_drift, max_drift, std_drift, buckets, samples) \<Rightarrow>
             (let (overall, recs) =
                    calculate_rating self start_delay avg_drift max_drift buckets
                      (int (length samples)) in
              Inr \<lparr> cam0_stats = stats0, cam1_stats = stats1,
                    start_delay_ms = start_delay,
                    duration_diff_seconds = duration_diff,
                    avg_time_drift_ms = avg_drift,
                    max_time_drift_ms = max_drift,
                    time_drift_std_ms = std_drift,
                    drift_distribution = buckets,
                    sample_drifts = samples,
                    overall_rating = overall,
                    recommendations = recs \<rparr>)))"

text \<open>
  \<open>TimestampAnalyzer.analyze_all_segments\<close>, from the two series it has loaded and
  concatenated in segment order (the timestamp logs are an external source).
\<close>

definition analyze_all_segments ::
  "(float list \<Rightarrow> float) \<Rightarrow> TimestampAnalyzer \<Rightarrow> TimestampRecord list \<Rightarrow> TimestampRecord list
   \<Rightarrow> error + SyncAnalysis" where
  "analyze_all_segments stdev self all_cam0_timestamps all_cam1_timestamps =
     (if all_cam0_timestamps = [] \<or> all_cam1_timestamps = []
      then Inl (ValueError ''No timestamps loaded for analysis'')
      else analyze_sync_quality stdev self all_cam0_timestamps all_cam1_timestamps)"

section \<open>main.py\<close>

text \<open>
  The timestamp analysis step of \<open>main\<close>: every exception of the analyzer is caught
  and logged, and \<open>sync_analysis\<close> stays \<open>None\<close>.
\<close>

definition main_sync_analysis ::
  "bool \<Rightarrow> (float list \<Rightarrow> float) \<Rightarrow> TimestampAnalyzer \<Rightarrow> TimestampRecord list
   \<Rightarrow> TimestampRecord list \<Rightarrow> SyncAnalysis option" where
  "main_sync_analysis timestamp_analysis_enabled stdev analyzer cam0_timestamps cam1_timestamps =
     (if timestamp_analysis_enabled
      then case analyze_all_segments stdev analyzer cam0_timestamps cam1_timestamps of
             Inl e \<Rightarrow> None
           | Inr analysis \<Rightarrow> Some analysis
      else None)"

section \<open>The statements of the specification, for comparison\<close>

text \<open>
  The specification's decision table for the rating: both the average drift and the
  start delay are put into the four bands below 10, below 30, below 50 and from 50 on.
\<close>

definition claimed_class :: "float \<Rightarrow> rating" where
  "claimed_class x = (if x < 10 then Excellent else if x < 30 then Good else if x < 50 then Fair else Poor)"

definition claimed_rating :: "float \<Rightarrow> float \<Rightarrow> rating" where
  "claimed_rating start_delay avg_drift =
     (let d = claimed_class avg_drift; s = claimed_class \<bar>start_delay\<bar> in
      if d = Excellent \<and> s = Excellent then Excellent
      else if d \<in> {Excellent, Good} \<and> s \<in> {Excellent, Good} then Good
      else if d = Fair then Fair
      else Poor)"

text \<open>The sum of the four counts of a distribution.\<close>

definition bucket_total :: "distribution \<Rightarrow> nat" where
  "bucket_total b = under_10ms b + from_10_to_30ms b + from_30_to_50ms b + over_50ms b"


text \<open>
  The specification's offset of a segment: the sum of \<open>frame_count\<close> over the segments
  of the camera with a strictly smaller \<open>segment_number\<close>.
\<close>

definition claimed_offset :: "VideoSegment list \<Rightarrow> VideoSegment \<Rightarrow> int" where
  "claimed_offset segments s =
     sum_list (map frame_count (filter (\<lambda>s'. segment_number s' < segment_number s) segments))"

text \<open>
  The specification's sample indices, for \<open>m\<close> common records and \<open>n\<close> sample points.
\<close>

definition claimed_indices :: "int \<Rightarrow> int \<Rightarrow> int list" where
  "claimed_indices m n = (if m \<le> n then [0..m - 1] else map (\<lambda>i. i * (m div n)) [0..n - 1])"

text \<open>
  The percentage of the specification, in exact arithmetic: the absolute difference
  of the totals over the larger total, times 100.
\<close>

definition exact_difference_percent :: "int \<Rightarrow> int \<Rightarrow> real" where
  "exact_difference_percent cam0_total cam1_total =
     of_int \<bar>cam0_total - cam1_total\<bar> / of_int (max cam0_total cam1_total) * 100"

section \<open>Notions used in the statements\<close>

text \<open>
  The frames of a segment, each with the number \<open>offset + i\<close> of its 1-indexed position
  \<open>i\<close>; the frames that \<open>save_frame\<close> can write; the record made for the frame number
  \<open>g\<close> by a task; and the numbered frames that a worker keeps.
\<close>

definition numbered_frames :: "int \<Rightarrow> frame list \<Rightarrow> (int \<times> frame) list" where
  "numbered_frames offset frames = zip (map (\<lambda>i. offset + int i) [1..<Suc (length frames)]) frames"

definition savable :: "frame \<Rightarrow> bool" where
  "savable fr = (\<not> none_or_empty fr \<and> imwrite fr = Written)"

definition frame_record :: "FrameExtractor \<Rightarrow> SegmentExtractionTask \<Rightarrow> int \<Rightarrow> ExtractedFrame" where
  "frame_record extractor task g =
     \<lparr> global_frame_number = g, camera_id = task_camera_id task,
       file_path = output_dir task @ ''/'' @ frame_filename extractor g \<rparr>"

definition sampled :: "FrameExtractor \<Rightarrow> int \<times> frame \<Rightarrow> bool" where
  "sampled extractor = (\<lambda>(g, fr). 1 \<le> g \<and> (g - 1) mod sampling_interval extractor = 0 \<and> savable fr)"


text \<open>The frame with the number \<open>n\<close> that comes last in a list.\<close>

definition latest :: "ExtractedFrame list \<Rightarrow> int \<Rightarrow> ExtractedFrame" where
  "latest frames n = last (filter (\<lambda>fr. global_frame_number fr = n) frames)"


text \<open>
  The drift at an index, in milliseconds: the timestamp of camera 0 minus the
  timestamp of camera 1 at the same index. The tuple that \<open>analyze_time_drift\<close>
  records for an index.
\<close>

definition drift_ms_at :: "TimestampRecord list \<Rightarrow> TimestampRecord list \<Rightarrow> int \<Rightarrow> float" where
  "drift_ms_at cam0 cam1 idx =
     fl (of_int (pts_us (cam0 ! nat idx) - pts_us (cam1 ! nat idx)) / 1000)"

definition seconds_since_start :: "TimestampRecord list \<Rightarrow> int \<Rightarrow> float" where
  "seconds_since_start cam idx = fl (of_int (pts_us (cam ! nat idx) - pts_us (cam ! 0)) / 1000000)"

definition sample_at ::
  "TimestampRecord list \<Rightarrow> TimestampRecord list \<Rightarrow> int \<Rightarrow> int \<times> float \<times> float \<times> float" where
  "sample_at cam0 cam1 idx =
     (idx, seconds_since_start cam0 idx, seconds_since_start cam1 idx, drift_ms_at cam0 cam1 idx)"

section \<open>Concrete inputs\<close>

definition extractor_100 :: FrameExtractor where
  "extractor_100 = \<lparr> sampling_interval = 100, output_format = ''png'', enable_overlay = True,
                     overlay_font_size = 32, overlay_position = ''top-left'' \<rparr>"


definition series0 :: "TimestampRecord list" where
  "series0 = [\<lparr>frame_index = 0, pts_us = 0\<rparr>, \<lparr>frame_index = 1, pts_us = 1000000\<rparr>]"
definition series1 :: "TimestampRecord list" where
  "series1 = [\<lparr>frame_index = 0, pts_us = 8000\<rparr>, \<lparr>frame_index = 1, pts_us = 2008000\<rparr>]"
definition analyzer_20 :: TimestampAnalyzer where
  "analyzer_20 = \<lparr> sync_threshold_ms = 50, sample_points = 20 \<rparr>"

definition one_record :: "TimestampRecord list" where
  "one_record = [\<lparr>frame_index = 0, pts_us = 0\<rparr>]"

definition cfg_2 :: extractor_config where
  "cfg_2 = \<lparr> config_sampling_interval = 2, config_output_format = ''png'',
             config_enable_overlay = True, config_overlay_font_size = 32,
             config_overlay_position = ''top-left'' \<rparr>"

definition extractor_2 :: FrameExtractor where
  "extractor_2 = \<lparr> sampling_interval = 2, output_format = ''png'', enable_overlay = True,
                   overlay_font_size = 32, overlay_position = ''top-left'' \<rparr>"

definition dirs_out :: extraction_dirs where
  "dirs_out = \<lparr> cam0_dir = ''out/cam0'', cam1_dir = ''out/cam1'' \<rparr>"

definition gap_segments :: "VideoSegment list" where
  "gap_segments =
     [\<lparr> segment_camera_id = ''cam0'', segment_number = 5, segment_file_path = ''c0_5.mp4'',
        frame_count = 4 \<rparr>,
      \<lparr> segment_camera_id = ''cam0'', segment_number = 1, segment_file_path = ''c0_1.mp4'',
        frame_count = 3 \<rparr>,
      \<lparr> segment_camera_id = ''cam0'', segment_number = 2, segment_file_path = ''c0_2.mp4'',
        frame_count = 2 \<rparr>]"

definition cam1_segment :: "VideoSegment list" where
  "cam1_segment =
     [\<lparr> segment_camera_id = ''cam1'', segment_number = 1, segment_file_path = ''c1_1.mp4'',
        frame_count = 3 \<rparr>]"

definition dup_segments :: "VideoSegment list" where
  "dup_segments =
     [\<lparr> segment_camera_id = ''cam0'', segment_number = 1, segment_file_path = ''c0_1.mp4'',
        frame_count = 10 \<rparr>,
      \<lparr> segment_camera_id = ''cam0'', segment_number = 1, segment_file_path = ''c0_01.mp4'',
        frame_count = 20 \<rparr>]"

definition good_frame :: frame where
  "good_frame = \<lparr> none_or_empty = False, imwrite = Written \<rparr>"

definition decoder_ex :: "string \<Rightarrow> video" where
  "decoder_ex path =
     (if path = ''c0_1.mp4'' then Opened [good_frame, good_frame, good_frame] EndOfStream
      else if path = ''c0_2.mp4'' then Opened [good_frame, good_frame] EndOfStream
      else if path = ''c0_5.mp4'' then Opened [good_frame, good_frame, good_frame, good_frame] EndOfStream
      else Unopenable)"

definition pool_in_order :: pool where
  "pool_in_order = \<lparr> submit_raises = (\<lambda>t. False), as_completed = (\<lambda>ts. ts), result_raises = (\<lambda>t. False) \<rparr>"

definition pool_reversed :: pool where
  "pool_reversed = \<lparr> submit_raises = (\<lambda>t. False), as_completed = rev, result_raises = (\<lambda>t. False) \<rparr>"






definition cam0_example :: "ExtractedFrame list" where
  "cam0_example =
     [\<lparr>global_frame_number = 201, camera_id = ''cam0'', file_path = ''out/cam0/frame_0201.png''\<rparr>,
      \<lparr>global_frame_number = 1, camera_id = ''cam0'', file_path = ''out/cam0/frame_0001.png''\<rparr>,
      \<lparr>global_frame_number = 101, camera_id = ''cam0'', file_path = ''out/cam0/frame_0101.png''\<rparr>]"

definition cam1_example :: "ExtractedFrame list" where
  "cam1_example =
     [\<lparr>global_frame_number = 1, camera_id = ''cam1'', file_path = ''out/cam1/frame_0001.png''\<rparr>,
      \<lparr>global_frame_number = 301, camera_id = ''cam1'', file_path = ''out/cam1/frame_0301.png''\<rparr>,
      \<lparr>global_frame_number = 101, camera_id = ''cam1'', file_path = ''out/cam1/frame_0101.png''\<rparr>]"


definition analyzer_2 :: TimestampAnalyzer where
  "analyzer_2 = \<lparr> sync_threshold_ms = 50, sample_points = 2 \<rparr>"

definition five_cam0 :: "TimestampRecord list" where
  "five_cam0 = map (\<lambda>k. \<lparr>frame_index = k, pts_us = 4000 * k\<rparr>) [0, 1, 2, 3, 4]"

definition five_cam1 :: "TimestampRecord list" where
  "five_cam1 = map (\<lambda>k. \<lparr>frame_index = k, pts_us = 5000 * k\<rparr>) [0, 1, 2, 3, 4, 5]"

section \<open>The sampling pattern\<close>

lemma should_extract_frame_iff:
  "1 \<le> sampling_interval self \<Longrightarrow>
   should_extract_frame self g = Inr (1 \<le> g \<and> (g - 1) mod sampling_interval self = 0)"
  by (auto simp: should_extract_frame_def)

lemma progression_mod:
  fixes N :: int
  assumes "1 \<le> N"
  shows "(1 \<le> g \<and> (g - 1) mod N = 0) \<longleftrightarrow> (\<exists>k\<ge>0. g = 1 + k * N)"
proof
  assume a: "1 \<le> g \<and> (g - 1) mod N = 0"
  then have "g - 1 = ((g - 1) div N) * N" by (simp add: mod_eq_0_iff_dvd)
  moreover have "0 \<le> (g - 1) div N" using a assms by (simp add: pos_imp_zdiv_nonneg_iff)
  ultimately show "\<exists>k\<ge>0. g = 1 + k * N" by (intro exI[of _ "(g - 1) div N"]) simp
next
  assume "\<exists>k\<ge>0. g = 1 + k * N"
  then obtain k where k: "0 \<le> k" "g = 1 + k * N" by blast
  then show "1 \<le> g \<and> (g - 1) mod N = 0" using assms by simp
qed

lemma accepted_frames_set:
  assumes "1 \<le> sampling_interval self"
  shows "set (accepted_frames self F) =
         {g. \<exists>k\<ge>0. g = 1 + k * sampling_interval self} \<inter> {1..F}"
  using progression_mod[OF assms]
  by (auto simp: accepted_frames_def should_extract_frame_iff[OF assms])

lemma le_div_iff_mult_le:
  fixes N :: int
  assumes "1 \<le> N"
  shows "k \<le> a div N \<longleftrightarrow> k * N \<le> a"
proof -
  have "a div N = \<lfloor>(of_int a :: real) / of_int N\<rfloor>" by (simp add: floor_divide_of_int_eq)
  then have "k \<le> a div N \<longleftrightarrow> of_int k \<le> (of_int a :: real) / of_int N"
    by (simp add: le_floor_iff)
  also have "\<dots> \<longleftrightarrow> of_int k * of_int N \<le> (of_int a :: real)"
    using assms by (simp add: pos_le_divide_eq)
  also have "\<dots> \<longleftrightarrow> k * N \<le> a"
    by (simp flip: of_int_mult)
  finally show ?thesis .
qed

lemma progression_list_set:
  fixes N :: int
  assumes "1 \<le> N"
  shows "set (map (\<lambda>k. 1 + k * N) [0..(F - 1) div N]) = {g. \<exists>k\<ge>0. g = 1 + k * N} \<inter> {1..F}"
proof -
  have pos: "\<And>k. 0 \<le> k \<Longrightarrow> 1 \<le> 1 + k * N" using assms by simp
  show ?thesis
  proof (intro set_eqI iffI)
    fix g assume "g \<in> set (map (\<lambda>k. 1 + k * N) [0..(F - 1) div N])"
    then obtain k where k: "0 \<le> k" "k \<le> (F - 1) div N" "g = 1 + k * N" by auto
    from k(2) have "k * N \<le> F - 1" by (simp add: le_div_iff_mult_le[OF assms])
    with k pos[OF k(1)] show "g \<in> {g. \<exists>k\<ge>0. g = 1 + k * N} \<inter> {1..F}" by auto
  next
    fix g assume "g \<in> {g. \<exists>k\<ge>0. g = 1 + k * N} \<inter> {1..F}"
    then obtain k where k: "0 \<le> k" "g = 1 + k * N" "g \<le> F" by auto
    then have "k \<le> (F - 1) div N" by (simp add: le_div_iff_mult_le[OF assms])
    with k show "g \<in> set (map (\<lambda>k. 1 + k * N) [0..(F - 1) div N])" by auto
  qed
qed

lemma progression_sorted:
  fixes N :: int
  assumes "1 \<le> N"
  shows "sorted (map (\<lambda>k. 1 + k * N) [a..b])" "distinct (map (\<lambda>k. 1 + k * N) [a..b])"
proof -
  have "strict_mono (\<lambda>k. 1 + k * N)" using assms by (simp add: strict_mono_def)
  then have m: "mono (\<lambda>k. 1 + k * N)" "inj (\<lambda>k. 1 + k * N)"
    by (auto simp: strict_mono_mono strict_mono_imp_inj_on)
  show "sorted (map (\<lambda>k. 1 + k * N) [a..b])"
    using m(1) by (simp add: sorted_map mono_def sorted_wrt_iff_nth_less)
  show "distinct (map (\<lambda>k. 1 + k * N) [a..b])"
    using m(2) by (simp add: distinct_map inj_on_def)
qed

lemma accepted_frames_progression:
  assumes "1 \<le> sampling_interval self"
  shows "accepted_frames self F =
         map (\<lambda>k. 1 + k * sampling_interval self) [0..(F - 1) div sampling_interval self]"
proof (rule sorted_distinct_set_unique)
  show "sorted (accepted_frames self F)" by (simp add: accepted_frames_def sorted_wrt_filter)
  show "distinct (accepted_frames self F)" by (simp add: accepted_frames_def)
  show "set (accepted_frames self F) =
        set (map (\<lambda>k. 1 + k * sampling_interval self) [0..(F - 1) div sampling_interval self])"
    unfolding accepted_frames_set[OF assms] progression_list_set[OF assms] ..
qed (rule progression_sorted[OF assms])+

text \<open>
  C1. For an interval \<open>N \<ge> 1\<close>, \<open>should_extract_frame\<close> returns true exactly for the
  numbers \<open>g \<ge> 1\<close> with \<open>(g - 1) mod N = 0\<close>, and it depends on the extractor through
  \<open>N\<close> only. The accepted numbers of \<open>1..F\<close> are the progression \<open>1, 1 + N, 1 + 2N, ...\<close>
  cut at \<open>F\<close>: as a set, and as the increasing list, so for \<open>F \<ge> 1\<close> the first accepted
  number is 1 and two consecutive accepted numbers differ by \<open>N\<close>.
\<close>

theorem sampling_pattern:
  assumes "1 \<le> sampling_interval self"
  shows "should_extract_frame self g = Inr (1 \<le> g \<and> (g - 1) mod sampling_interval self = 0)
       \<and> (sampling_interval other = sampling_interval self
            \<longrightarrow> should_extract_frame other g = should_extract_frame self g)
       \<and> set (accepted_frames self F)
           = {g. \<exists>k\<ge>0. g = 1 + k * sampling_interval self} \<inter> {1..F}
       \<and> accepted_frames self F
           = map (\<lambda>k. 1 + k * sampling_interval self) [0..(F - 1) div sampling_interval self]
       \<and> (1 \<le> F \<longrightarrow> accepted_frames self F \<noteq> [] \<and> hd (accepted_frames self F) = 1)
       \<and> (\<forall>i. Suc i < length (accepted_frames self F) \<longrightarrow>
             accepted_frames self F ! Suc i - accepted_frames self F ! i = sampling_interval self)"
proof (intro conjI)
  let ?N = "sampling_interval self"
  let ?P = "map (\<lambda>k. 1 + k * ?N) [0..(F - 1) div ?N]"
  have list: "accepted_frames self F = ?P" by (rule accepted_frames_progression[OF assms])
  show "should_extract_frame self g = Inr (1 \<le> g \<and> (g - 1) mod ?N = 0)"
    by (rule should_extract_frame_iff[OF assms])
  show "sampling_interval other = ?N \<longrightarrow> should_extract_frame other g = should_extract_frame self g"
    by (simp add: should_extract_frame_def)
  show "set (accepted_frames self F) = {g. \<exists>k\<ge>0. g = 1 + k * ?N} \<inter> {1..F}"
    by (rule accepted_frames_set[OF assms])
  show "accepted_frames self F = ?P" by (rule list)
  show "1 \<le> F \<longrightarrow> accepted_frames self F \<noteq> [] \<and> hd (accepted_frames self F) = 1"
  proof
    assume "1 \<le> F"
    then have "0 \<le> (F - 1) div ?N" using assms by (simp add: pos_imp_zdiv_nonneg_iff)
    then have "[0..(F - 1) div ?N] = 0 # [1..(F - 1) div ?N]" by (simp add: upto_rec1)
    then show "accepted_frames self F \<noteq> [] \<and> hd (accepted_frames self F) = 1"
      unfolding list by simp
  qed
  show "\<forall>i. Suc i < length (accepted_frames self F) \<longrightarrow>
          accepted_frames self F ! Suc i - accepted_frames self F ! i = ?N"
    unfolding list by (auto simp: algebra_simps)
qed

theorem sampling_pattern_witness:
  "1 \<le> sampling_interval extractor_100
   \<and> should_extract_frame extractor_100 201 = Inr True
   \<and> should_extract_frame extractor_100 200 = Inr False
   \<and> accepted_frames extractor_100 250 = [1, 101, 201]"
  using sampling_pattern[of extractor_100 201 extractor_100 250]
        sampling_pattern[of extractor_100 200 extractor_100 250]
  by (simp add: extractor_100_def upto_rec1)

section \<open>Tasks, offsets and workers\<close>

lemma length_make_tasks [simp]: "length (make_tasks cam dir cfg segs off) = length segs"
  by (induction segs arbitrary: off) auto

lemma map_segment_make_tasks [simp]: "map segment (make_tasks cam dir cfg segs off) = segs"
  by (induction segs arbitrary: off) auto

lemma make_tasks_offset:
  "j < length segs \<Longrightarrow>
   global_frame_offset (make_tasks cam dir cfg segs off ! j)
     = off + sum_list (map frame_count (take j segs))"
proof (induction segs arbitrary: off j)
  case Nil
  then show ?case by simp
next
  case (Cons s rest)
  show ?case
  proof (cases j)
    case 0
    then show ?thesis by simp
  next
    case (Suc j')
    with Cons.prems have "j' < length rest" by simp
    from Cons.IH[OF this, of "off + frame_count s"] Suc show ?thesis by simp
  qed
qed

lemma make_tasks_fields:
  "t \<in> set (make_tasks cam dir cfg segs off) \<Longrightarrow>
   task_camera_id t = cam \<and> output_dir t = dir
   \<and> task_sampling_interval t = config_sampling_interval cfg
   \<and> task_output_format t = config_output_format cfg
   \<and> task_enable_overlay t = config_enable_overlay cfg
   \<and> task_overlay_font_size t = config_overlay_font_size cfg
   \<and> task_overlay_position t = config_overlay_position cfg"
  by (induction segs arbitrary: off) auto

lemma filter_less_take:
  fixes k :: "'a \<Rightarrow> int"
  assumes "sorted (map k xs)" "distinct (map k xs)" "j < length xs"
  shows "filter (\<lambda>s. k s < k (xs ! j)) xs = take j xs"
proof -
  from assms(1,2) have strict: "sorted_wrt (<) (map k xs)"
    by (simp add: strict_sorted_iff)
  have lt: "k (xs ! a) < k (xs ! b)" if "a < b" "b < length xs" for a b
    using strict that by (auto simp: sorted_wrt_iff_nth_less)
  have "\<forall>s \<in> set (take j xs). k s < k (xs ! j)"
  proof
    fix s assume "s \<in> set (take j xs)"
    then obtain a where "a < j" "s = xs ! a"
      using assms(3) by (auto simp: in_set_conv_nth)
    with lt[of a j] assms(3) show "k s < k (xs ! j)" by simp
  qed
  then have t: "filter (\<lambda>s. k s < k (xs ! j)) (take j xs) = take j xs" by simp
  have "\<forall>s \<in> set (drop j xs). \<not> k s < k (xs ! j)"
  proof
    fix s assume "s \<in> set (drop j xs)"
    then obtain a where a: "a < length xs - j" "s = xs ! (j + a)"
      by (auto simp: in_set_conv_nth)
    show "\<not> k s < k (xs ! j)"
    proof (cases a)
      case 0
      with a show ?thesis by simp
    next
      case (Suc a')
      with a have "j < j + a" "j + a < length xs" by simp_all
      from lt[OF this] a show ?thesis by simp
    qed
  qed
  then have d: "filter (\<lambda>s. k s < k (xs ! j)) (drop j xs) = []" by simp
  have "filter (\<lambda>s. k s < k (xs ! j)) xs
        = filter (\<lambda>s. k s < k (xs ! j)) (take j xs @ drop j xs)" by simp
  also have "\<dots> = take j xs" unfolding filter_append t d by simp
  finally show ?thesis .
qed

lemma sum_list_filter_mset:
  fixes f :: "'a \<Rightarrow> int"
  assumes "mset xs = mset ys"
  shows "sum_list (map f (filter P xs)) = sum_list (map f (filter P ys))"
proof -
  have "mset (map f (filter P xs)) = mset (map f (filter P ys))"
    using assms by (simp only: mset_map mset_filter)
  then show ?thesis by (metis sum_mset_sum_list)
qed

lemma camera_tasks_prefix_sum:
  assumes "j < length segs"
  shows "segment (camera_tasks cam dir cfg segs ! j) = sort_key segment_number segs ! j
       \<and> global_frame_offset (camera_tasks cam dir cfg segs ! j)
           = sum_list (map frame_count (take j (sort_key segment_number segs)))"
proof -
  let ?s = "sort_key segment_number segs"
  have j: "j < length ?s" using assms by simp
  have "segment (make_tasks cam dir cfg ?s 0 ! j) = map segment (make_tasks cam dir cfg ?s 0) ! j"
    using j by (simp del: map_segment_make_tasks)
  then show ?thesis
    using make_tasks_offset[OF j, of cam dir cfg 0] by (simp add: camera_tasks_def)
qed

lemma camera_tasks_claimed_offset:
  assumes "distinct (map segment_number segs)" "t \<in> set (camera_tasks cam dir cfg segs)"
  shows "global_frame_offset t = claimed_offset segs (segment t)"
proof -
  let ?s = "sort_key segment_number segs"
  from assms(2) obtain j where j: "j < length segs" "t = camera_tasks cam dir cfg segs ! j"
    by (auto simp: in_set_conv_nth camera_tasks_def)
  have js: "j < length ?s" using j by simp
  have d: "distinct (map segment_number ?s)"
    using assms(1) by (metis distinct_map distinct_sort set_sort mset_sort mset_map mset_eq_imp_distinct_iff)
  have "filter (\<lambda>s'. segment_number s' < segment_number (?s ! j)) ?s = take j ?s"
    by (rule filter_less_take[OF _ d js]) simp
  moreover have "claimed_offset segs (?s ! j) = claimed_offset ?s (?s ! j)"
    unfolding claimed_offset_def by (rule sum_list_filter_mset) simp
  ultimately show ?thesis
    using camera_tasks_prefix_sum[OF j(1), of cam dir cfg] j(2)
    by (simp add: claimed_offset_def)
qed


lemma save_frame_savable:
  "save_frame extractor fr g dir cam =
     (if savable fr then Inr (dir @ ''/'' @ frame_filename extractor g)
      else if none_or_empty fr then Inl (ValueError ''Frame is None or empty'') else Inl IOError)"
  by (cases "imwrite fr") (auto simp: save_frame_def savable_def)

lemma numbers_shift:
  "map (\<lambda>i. a + int i) [1..<Suc (Suc n)] = (a + 1) # map (\<lambda>i. (a + 1) + int i) [1..<Suc n]"
proof -
  have "[1..<Suc (Suc n)] = 1 # map Suc [1..<Suc n]"
    by (simp only: map_Suc_upt upt_conv_Cons)
  then show ?thesis by (simp add: comp_def)
qed

lemma extract_loop_numbered:
  assumes "1 \<le> sampling_interval extractor"
  shows "extract_loop extractor task frames local acc =
         Inr (acc @ map (\<lambda>(g, fr). frame_record extractor task g)
                      (filter (sampled extractor)
                         (numbered_frames (global_frame_offset task + local) frames)))"
proof (induction frames arbitrary: local acc)
  case Nil
  then show ?case by (simp add: numbered_frames_def)
next
  case (Cons fr rest)
  let ?g = "global_frame_offset task + (local + 1)"
  have n: "numbered_frames (global_frame_offset task + local) (fr # rest)
           = (?g, fr) # numbered_frames (global_frame_offset task + (local + 1)) rest"
    unfolding numbered_frames_def
    using numbers_shift[of "global_frame_offset task + local" "length rest"]
    by (simp add: add.assoc)
  show ?case
    unfolding n
    by (simp add: Let_def should_extract_frame_iff[OF assms] save_frame_savable Cons.IH
        sampled_def frame_record_def split: bool.splits)
qed

lemma numbered_frames_nth:
  "i < length frames \<Longrightarrow> numbered_frames offset frames ! i = (offset + (int i + 1), frames ! i)"
  by (simp add: numbered_frames_def del: upt_Suc)

lemma FrameExtractor_init_Inr:
  "FrameExtractor_init n fmt ov fs pos = Inr extractor \<Longrightarrow>
   1 \<le> sampling_interval extractor \<and> sampling_interval extractor = n
   \<and> output_format extractor = lower fmt"
  by (auto simp: FrameExtractor_init_def Let_def split: if_splits)

lemma extract_segment_frames_opened:
  assumes "FrameExtractor_init (task_sampling_interval task) (task_output_format task)
             (task_enable_overlay task) (task_overlay_font_size task)
             (task_overlay_position task) = Inr extractor"
    and "decoder (segment_file_path (segment task)) = Opened frames EndOfStream"
  shows "extract_segment_frames decoder task =
         map (\<lambda>(g, fr). frame_record extractor task g)
           (filter (sampled extractor) (numbered_frames (global_frame_offset task) frames))"
  using assms extract_loop_numbered[of extractor task frames 0 "[]"] FrameExtractor_init_Inr[OF assms(1)]
  by (simp add: extract_segment_frames_def)


lemma collect_results_concat:
  "collect_results decoder p ts (r0, r1) =
     (r0 @ concat (map (extract_segment_frames decoder)
                     (filter (\<lambda>t. \<not> result_raises p t \<and> task_camera_id t = ''cam0'') ts)),
      r1 @ concat (map (extract_segment_frames decoder)
                     (filter (\<lambda>t. \<not> result_raises p t \<and> task_camera_id t \<noteq> ''cam0'') ts)))"
  by (induction ts arbitrary: r0 r1) (simp_all add: Let_def)

lemma mset_concat_map_filter:
  assumes "mset xs = mset ys"
  shows "mset (concat (map f (filter P xs))) = mset (concat (map f (filter P ys)))"
proof -
  have "mset (map (\<lambda>x. mset (f x)) (filter P xs)) = mset (map (\<lambda>x. mset (f x)) (filter P ys))"
    using assms by (simp only: mset_map mset_filter)
  then have "sum_list (map (\<lambda>x. mset (f x)) (filter P xs))
           = sum_list (map (\<lambda>x. mset (f x)) (filter P ys))"
    by (metis sum_mset_sum_list)
  then show ?thesis by (simp add: mset_concat comp_def)
qed

lemma sort_key_mset_inj:
  assumes "mset xs = mset ys" "inj_on f (set xs)"
  shows "sort_key f xs = sort_key f ys"
proof (rule sort_key_inj_key_eq)
  show "mset xs = mset (sort_key f ys)" using assms(1) by simp
  show "inj_on f (set xs)" by (rule assms(2))
  show "sorted (map f (sort_key f ys))" by simp
qed

lemma extract_segment_frames_records:
  assumes "fr \<in> set (extract_segment_frames decoder task)"
  shows "\<exists>extractor.
           FrameExtractor_init (task_sampling_interval task) (task_output_format task)
             (task_enable_overlay task) (task_overlay_font_size task)
             (task_overlay_position task) = Inr extractor
         \<and> fr = frame_record extractor task (global_frame_number fr)"
proof (cases "FrameExtractor_init (task_sampling_interval task) (task_output_format task)
             (task_enable_overlay task) (task_overlay_font_size task)
             (task_overlay_position task)")
  case (Inl e)
  with assms show ?thesis by (simp add: extract_segment_frames_def)
next
  case (Inr extractor)
  from FrameExtractor_init_Inr[OF Inr] have pos: "1 \<le> sampling_interval extractor" by simp
  from assms Inr have "fr = frame_record extractor task (global_frame_number fr)"
    by (auto simp: extract_segment_frames_def extract_loop_numbered[OF pos] frame_record_def
        split: video.splits stream_end.splits)
  with Inr show ?thesis by simp
qed

lemma camera_results_inj:
  assumes "\<forall>t \<in> set ts. t \<in> set (make_tasks cam dir cfg segs off)"
  shows "inj_on global_frame_number
           (set (concat (map (extract_segment_frames decoder) ts)))"
proof (rule inj_onI)
  fix a b
  assume a: "a \<in> set (concat (map (extract_segment_frames decoder) ts))"
    and b: "b \<in> set (concat (map (extract_segment_frames decoder) ts))"
    and eq: "global_frame_number a = global_frame_number b"
  from a obtain t where t: "t \<in> set ts" "a \<in> set (extract_segment_frames decoder t)" by auto
  from b obtain u where u: "u \<in> set ts" "b \<in> set (extract_segment_frames decoder u)" by auto
  from t(1) u(1) assms have f: "t \<in> set (make_tasks cam dir cfg segs off)"
    "u \<in> set (make_tasks cam dir cfg segs off)" by auto
  from extract_segment_frames_records[OF t(2)] extract_segment_frames_records[OF u(2)]
    make_tasks_fields[OF f(1)] make_tasks_fields[OF f(2)] eq
  show "a = b" by (auto simp: frame_record_def)
qed


section \<open>Global frame offsets\<close>

text \<open>
  C2, as the specification states it, fails on two segments of a camera with the same
  number (the files \<open>..._1.mp4\<close> and \<open>..._01.mp4\<close> both have the number 1): the second
  task's offset is the first segment's frame count, and no segment has a smaller
  number.
\<close>

theorem global_frame_offsets_counterexample:
  "global_frame_offset (camera_tasks ''cam0'' ''out/cam0'' cfg_2 dup_segments ! 1) = 10
   \<and> claimed_offset dup_segments (segment (camera_tasks ''cam0'' ''out/cam0'' cfg_2 dup_segments ! 1)) = 0"
  by (simp add: camera_tasks_def dup_segments_def claimed_offset_def)

text \<open>
  C2, amended. The task of position \<open>j\<close> is for the segment of position \<open>j\<close> in the stable
  ascending sort by \<open>segment_number\<close>, and its offset is the sum of \<open>frame_count\<close> over
  the segments before it in that order. When the segment numbers of the camera are
  pairwise distinct, this is the sum over the segments with a strictly smaller number,
  whatever the gaps. A worker whose segment opens and is read to its end keeps, of the
  frames numbered \<open>offset + i\<close> for the 1-indexed position \<open>i\<close>, those that are sampled
  and written.
\<close>

theorem global_frame_offsets:
  "(\<forall>j < length segs.
       segment (camera_tasks cam dir cfg segs ! j) = sort_key segment_number segs ! j
     \<and> global_frame_offset (camera_tasks cam dir cfg segs ! j)
         = sum_list (map frame_count (take j (sort_key segment_number segs))))
   \<and> (distinct (map segment_number segs) \<longrightarrow>
        (\<forall>t \<in> set (camera_tasks cam dir cfg segs).
           global_frame_offset t = claimed_offset segs (segment t)))
   \<and> (FrameExtractor_init (task_sampling_interval task) (task_output_format task)
          (task_enable_overlay task) (task_overlay_font_size task)
          (task_overlay_position task) = Inr extractor
        \<and> decoder (segment_file_path (segment task)) = Opened frames EndOfStream \<longrightarrow>
        extract_segment_frames decoder task =
          map (\<lambda>(g, fr). frame_record extractor task g)
            (filter (sampled extractor) (numbered_frames (global_frame_offset task) frames))
        \<and> (\<forall>i < length frames.
              numbered_frames (global_frame_offset task) frames ! i
                = (global_frame_offset task + (int i + 1), frames ! i)))"
  using camera_tasks_prefix_sum[of _ segs cam dir cfg]
        camera_tasks_claimed_offset[of segs _ cam dir cfg]
        extract_segment_frames_opened[of task extractor decoder frames]
        numbered_frames_nth[of _ frames "global_frame_offset task"]
  by blast

lemma gap_tasks:
  "camera_tasks ''cam0'' ''out/cam0'' cfg_2 gap_segments =
     [\<lparr> segment = gap_segments ! 1, task_camera_id = ''cam0'', output_dir = ''out/cam0'',
        task_sampling_interval = 2, task_output_format = ''png'', task_enable_overlay = True,
        task_overlay_font_size = 32, task_overlay_position = ''top-left'',
        global_frame_offset = 0 \<rparr>,
      \<lparr> segment = gap_segments ! 2, task_camera_id = ''cam0'', output_dir = ''out/cam0'',
        task_sampling_interval = 2, task_output_format = ''png'', task_enable_overlay = True,
        task_overlay_font_size = 32, task_overlay_position = ''top-left'',
        global_frame_offset = 3 \<rparr>,
      \<lparr> segment = gap_segments ! 0, task_camera_id = ''cam0'', output_dir = ''out/cam0'',
        task_sampling_interval = 2, task_output_format = ''png'', task_enable_overlay = True,
        task_overlay_font_size = 32, task_overlay_position = ''top-left'',
        global_frame_offset = 5 \<rparr>]"
  by (simp add: camera_tasks_def gap_segments_def cfg_2_def)

lemma init_2: "FrameExtractor_init 2 ''png'' True 32 ''top-left'' = Inr extractor_2"
  by code_simp

theorem global_frame_offsets_witness:
  "distinct (map segment_number gap_segments)
   \<and> map global_frame_offset (camera_tasks ''cam0'' ''out/cam0'' cfg_2 gap_segments) = [0, 3, 5]
   \<and> map (\<lambda>t. claimed_offset gap_segments (segment t))
         (camera_tasks ''cam0'' ''out/cam0'' cfg_2 gap_segments) = [0, 3, 5]
   \<and> decoder_ex ''c0_2.mp4'' = Opened [good_frame, good_frame] EndOfStream
   \<and> extract_segment_frames decoder_ex (camera_tasks ''cam0'' ''out/cam0'' cfg_2 gap_segments ! 1)
       = [frame_record extractor_2 (camera_tasks ''cam0'' ''out/cam0'' cfg_2 gap_segments ! 1) 5]"
proof -
  let ?T = "camera_tasks ''cam0'' ''out/cam0'' cfg_2 gap_segments ! 1"
  have d: "distinct (map segment_number gap_segments)" by (simp add: gap_segments_def)
  have dec: "decoder_ex ''c0_2.mp4'' = Opened [good_frame, good_frame] EndOfStream"
    by (simp add: decoder_ex_def)
  have path: "segment_file_path (segment ?T) = ''c0_2.mp4''"
    by (simp add: gap_tasks) (simp add: gap_segments_def)
  have off: "global_frame_offset ?T = 3" by (simp add: gap_tasks)
  have init: "FrameExtractor_init (task_sampling_interval ?T) (task_output_format ?T)
          (task_enable_overlay ?T) (task_overlay_font_size ?T) (task_overlay_position ?T)
          = Inr extractor_2"
    using init_2 by (simp add: gap_tasks)
  note inst = global_frame_offsets[of gap_segments "''cam0''" "''out/cam0''" cfg_2
      ?T extractor_2 decoder_ex "[good_frame, good_frame]"]
  from inst d have
    "\<forall>t \<in> set (camera_tasks ''cam0'' ''out/cam0'' cfg_2 gap_segments).
       global_frame_offset t = claimed_offset gap_segments (segment t)" by blast
  then have c: "map (\<lambda>t. claimed_offset gap_segments (segment t))
         (camera_tasks ''cam0'' ''out/cam0'' cfg_2 gap_segments)
        = map global_frame_offset (camera_tasks ''cam0'' ''out/cam0'' cfg_2 gap_segments)"
    by simp
  from inst init dec path have
    "extract_segment_frames decoder_ex ?T =
       map (\<lambda>(g, fr). frame_record extractor_2 ?T g)
         (filter (sampled extractor_2) (numbered_frames (global_frame_offset ?T)
            [good_frame, good_frame]))"
    by simp
  also have "numbered_frames (global_frame_offset ?T) [good_frame, good_frame]
             = [(4, good_frame), (5, good_frame)]"
    unfolding off by (simp add: numbered_frames_def upt_conv_Cons)
  finally have e: "extract_segment_frames decoder_ex ?T = [frame_record extractor_2 ?T 5]"
    by (simp add: sampled_def savable_def good_frame_def extractor_2_def)
  show ?thesis using d c e dec by (simp add: gap_tasks)
qed



section \<open>Independence of the completion order\<close>

lemma all_tasks_cam0:
  assumes "t \<in> set (all_tasks cam0 cam1 dirs cfg)" "task_camera_id t = ''cam0''"
  shows "t \<in> set (make_tasks ''cam0'' (cam0_dir dirs) cfg (sort_key segment_number cam0) 0)"
  using assms make_tasks_fields[of t "''cam1''" "cam1_dir dirs" cfg "sort_key segment_number cam1" 0]
  by (auto simp: all_tasks_def camera_tasks_def)

lemma all_tasks_cam1:
  assumes "t \<in> set (all_tasks cam0 cam1 dirs cfg)" "task_camera_id t \<noteq> ''cam0''"
  shows "t \<in> set (make_tasks ''cam1'' (cam1_dir dirs) cfg (sort_key segment_number cam1) 0)"
  using assms make_tasks_fields[of t "''cam0''" "cam0_dir dirs" cfg "sort_key segment_number cam0" 0]
  by (auto simp: all_tasks_def camera_tasks_def)

lemma extract_all_frames_Inr:
  assumes "0 < max_workers self"
    and "\<not> list_ex (submit_raises p) (all_tasks cam0 cam1 dirs cfg)"
  shows "extract_all_frames self decoder p cam0 cam1 dirs cfg =
     Inr (sort_key global_frame_number
            (concat (map (extract_segment_frames decoder)
               (filter (\<lambda>t. \<not> result_raises p t \<and> task_camera_id t = ''cam0'')
                  (as_completed p (all_tasks cam0 cam1 dirs cfg))))),
          sort_key global_frame_number
            (concat (map (extract_segment_frames decoder)
               (filter (\<lambda>t. \<not> result_raises p t \<and> task_camera_id t \<noteq> ''cam0'')
                  (as_completed p (all_tasks cam0 cam1 dirs cfg))))))"
  using assms by (simp add: extract_all_frames_def collect_results_concat Let_def)

lemma sorted_results_permutation:
  assumes "mset done = mset tasks" "mset done' = mset tasks"
    and "\<forall>t \<in> set tasks. P t \<longrightarrow> t \<in> set (make_tasks cam dir cfg segs off)"
  shows "sort_key global_frame_number
            (concat (map (extract_segment_frames decoder) (filter P done')))
       = sort_key global_frame_number
            (concat (map (extract_segment_frames decoder) (filter P done)))"
proof (rule sort_key_mset_inj)
  show "mset (concat (map (extract_segment_frames decoder) (filter P done')))
      = mset (concat (map (extract_segment_frames decoder) (filter P done)))"
    by (rule mset_concat_map_filter) (simp add: assms)
  have "set done' = set tasks" using assms(2) by (rule mset_eq_setD)
  with assms(3) have "\<forall>t \<in> set (filter P done'). t \<in> set (make_tasks cam dir cfg segs off)"
    by simp
  then show "inj_on global_frame_number
          (set (concat (map (extract_segment_frames decoder) (filter P done'))))"
    by (rule camera_results_inj)
qed

text \<open>
  C3. Whatever the order in which the pool completes the tasks, the scheduler returns
  the same two lists, each sorted ascending by \<open>global_frame_number\<close>: two pools that
  accept and complete the same tasks, with the same failures, in different orders
  give the same result.
\<close>

theorem order_independence:
  assumes "mset (as_completed p (all_tasks cam0 cam1 dirs cfg)) = mset (all_tasks cam0 cam1 dirs cfg)"
    and "mset (as_completed p' (all_tasks cam0 cam1 dirs cfg)) = mset (all_tasks cam0 cam1 dirs cfg)"
    and "result_raises p' = result_raises p"
    and "0 < max_workers self"
    and "\<not> list_ex (submit_raises p) (all_tasks cam0 cam1 dirs cfg)"
    and "\<not> list_ex (submit_raises p') (all_tasks cam0 cam1 dirs cfg)"
  shows "\<exists>r0 r1. extract_all_frames self decoder p cam0 cam1 dirs cfg = Inr (r0, r1)
          \<and> extract_all_frames self decoder p' cam0 cam1 dirs cfg = Inr (r0, r1)
          \<and> sorted (map global_frame_number r0) \<and> sorted (map global_frame_number r1)"
proof -
  let ?tasks = "all_tasks cam0 cam1 dirs cfg"
  have c0: "\<forall>t \<in> set ?tasks. \<not> result_raises p t \<and> task_camera_id t = ''cam0'' \<longrightarrow>
              t \<in> set (make_tasks ''cam0'' (cam0_dir dirs) cfg (sort_key segment_number cam0) 0)"
    using all_tasks_cam0 by blast
  have c1: "\<forall>t \<in> set ?tasks. \<not> result_raises p t \<and> task_camera_id t \<noteq> ''cam0'' \<longrightarrow>
              t \<in> set (make_tasks ''cam1'' (cam1_dir dirs) cfg (sort_key segment_number cam1) 0)"
    using all_tasks_cam1 by blast
  show ?thesis
    unfolding extract_all_frames_Inr[OF assms(4) assms(5)]
      extract_all_frames_Inr[OF assms(4) assms(6)] assms(3)
    using sorted_results_permutation[OF assms(1) assms(2) c0, of decoder]
          sorted_results_permutation[OF assms(1) assms(2) c1, of decoder]
    by simp
qed

lemma extraction_ex:
  "extract_all_frames \<lparr>max_workers = 4\<rparr> decoder_ex pool_reversed gap_segments cam1_segment
     dirs_out cfg_2
   = Inr ([\<lparr>global_frame_number = 1, camera_id = ''cam0'', file_path = ''out/cam0/frame_0001.png''\<rparr>,
           \<lparr>global_frame_number = 3, camera_id = ''cam0'', file_path = ''out/cam0/frame_0003.png''\<rparr>,
           \<lparr>global_frame_number = 5, camera_id = ''cam0'', file_path = ''out/cam0/frame_0005.png''\<rparr>,
           \<lparr>global_frame_number = 7, camera_id = ''cam0'', file_path = ''out/cam0/frame_0007.png''\<rparr>,
           \<lparr>global_frame_number = 9, camera_id = ''cam0'', file_path = ''out/cam0/frame_0009.png''\<rparr>],
          [])"
  by code_simp

theorem order_independence_witness:
  "mset (as_completed pool_in_order (all_tasks gap_segments cam1_segment dirs_out cfg_2))
     = mset (all_tasks gap_segments cam1_segment dirs_out cfg_2)
   \<and> mset (as_completed pool_reversed (all_tasks gap_segments cam1_segment dirs_out cfg_2))
     = mset (all_tasks gap_segments cam1_segment dirs_out cfg_2)
   \<and> as_completed pool_reversed (all_tasks gap_segments cam1_segment dirs_out cfg_2)
     \<noteq> as_completed pool_in_order (all_tasks gap_segments cam1_segment dirs_out cfg_2)
   \<and> result_raises pool_reversed = result_raises pool_in_order
   \<and> 0 < max_workers \<lparr>max_workers = 4\<rparr>
   \<and> \<not> list_ex (submit_raises pool_in_order) (all_tasks gap_segments cam1_segment dirs_out cfg_2)
   \<and> \<not> list_ex (submit_raises pool_reversed) (all_tasks gap_segments cam1_segment dirs_out cfg_2)
   \<and> extract_all_frames \<lparr>max_workers = 4\<rparr> decoder_ex pool_in_order gap_segments cam1_segment
         dirs_out cfg_2
     = extract_all_frames \<lparr>max_workers = 4\<rparr> decoder_ex pool_reversed gap_segments cam1_segment
         dirs_out cfg_2
   \<and> map global_frame_number
         (fst (projr (extract_all_frames \<lparr>max_workers = 4\<rparr> decoder_ex pool_reversed gap_segments
            cam1_segment dirs_out cfg_2))) = [1, 3, 5, 7, 9]"
proof -
  have a: "mset (as_completed pool_in_order (all_tasks gap_segments cam1_segment dirs_out cfg_2))
     = mset (all_tasks gap_segments cam1_segment dirs_out cfg_2)"
    by (simp add: pool_in_order_def)
  have b: "mset (as_completed pool_reversed (all_tasks gap_segments cam1_segment dirs_out cfg_2))
     = mset (all_tasks gap_segments cam1_segment dirs_out cfg_2)"
    by (simp add: pool_reversed_def)
  have c: "result_raises pool_reversed = result_raises pool_in_order"
    by (simp add: pool_reversed_def pool_in_order_def)
  have d: "as_completed pool_reversed (all_tasks gap_segments cam1_segment dirs_out cfg_2)
     \<noteq> as_completed pool_in_order (all_tasks gap_segments cam1_segment dirs_out cfg_2)"
    by (simp add: pool_reversed_def pool_in_order_def all_tasks_def dirs_out_def gap_tasks
        cam1_segment_def camera_tasks_def[of "''cam1''"])
  have s: "\<not> list_ex (submit_raises pool_in_order) (all_tasks gap_segments cam1_segment dirs_out cfg_2)"
    "\<not> list_ex (submit_raises pool_reversed) (all_tasks gap_segments cam1_segment dirs_out cfg_2)"
    by (simp_all add: pool_in_order_def pool_reversed_def list_ex_iff)
  have w: "0 < max_workers \<lparr>max_workers = 4\<rparr>" by simp
  from order_independence[OF a b c w s, of decoder_ex]
  have "extract_all_frames \<lparr>max_workers = 4\<rparr> decoder_ex pool_in_order gap_segments cam1_segment
         dirs_out cfg_2
     = extract_all_frames \<lparr>max_workers = 4\<rparr> decoder_ex pool_reversed gap_segments cam1_segment
         dirs_out cfg_2"
    by auto
  with a b c d s show ?thesis by (simp add: extraction_ex)
qed


section \<open>Pairing\<close>

lemma fold_frame_map_dom:
  "dom (fold (\<lambda>fr m. m(global_frame_number fr \<mapsto> fr)) frames m0)
   = dom m0 \<union> global_frame_number ` set frames"
  by (induction frames arbitrary: m0) auto

lemma dom_frame_map: "dom (frame_map frames) = global_frame_number ` set frames"
  by (simp add: frame_map_def fold_frame_map_dom)

lemma frame_map_snoc:
  "frame_map (frames @ [fr]) = (frame_map frames)(global_frame_number fr \<mapsto> fr)"
  by (simp add: frame_map_def)

lemma frame_map_last:
  "frame_map frames n =
     (if n \<in> global_frame_number ` set frames
      then Some (last (filter (\<lambda>fr. global_frame_number fr = n) frames)) else None)"
proof (induction frames rule: rev_induct)
  case Nil
  then show ?case by (simp add: frame_map_def)
next
  case (snoc fr frames)
  show ?case unfolding frame_map_snoc using snoc by auto
qed

lemma make_pairs_Inr:
  assumes "set nums \<subseteq> dom m0 \<inter> dom m1"
  shows "make_pairs m0 m1 nums = Inr (map (\<lambda>n. (the (m0 n), the (m1 n))) nums)"
  using assms by (induction nums) auto

lemma finite_frame_numbers: "finite (global_frame_number ` set c)" by simp

lemma latest_in:
  assumes "n \<in> global_frame_number ` set frames"
  shows "latest frames n \<in> set frames \<and> global_frame_number (latest frames n) = n"
proof -
  from assms have ne: "filter (\<lambda>fr. global_frame_number fr = n) frames \<noteq> []"
    by (auto simp: filter_empty_conv)
  from last_in_set[OF ne] show ?thesis by (simp add: latest_def)
qed

text \<open>
  C4. \<open>find_frame_pairs\<close> never fails. It returns one pair for each frame number that
  both lists contain, and for no other number, in ascending order of the number; the
  two frames of a pair are frames of the two lists with exactly that number (the last
  one in its list). The numbers of one camera only are counted in the warnings.
\<close>

theorem pairing:
  "find_frame_pairs cam0 cam1 =
     Inr (map (\<lambda>n. (latest cam0 n, latest cam1 n)) (common_frame_numbers cam0 cam1),
          (if cam0_only cam0 cam1 \<noteq> {} then [Cam0WithoutCam1 (card (cam0_only cam0 cam1))] else []) @
          (if cam1_only cam0 cam1 \<noteq> {} then [Cam1WithoutCam0 (card (cam1_only cam0 cam1))] else []))
   \<and> common_frame_numbers cam0 cam1
       = sorted_list_of_set (global_frame_number ` set cam0 \<inter> global_frame_number ` set cam1)
   \<and> set (common_frame_numbers cam0 cam1)
       = global_frame_number ` set cam0 \<inter> global_frame_number ` set cam1
   \<and> sorted (common_frame_numbers cam0 cam1) \<and> distinct (common_frame_numbers cam0 cam1)
   \<and> (\<forall>n \<in> set (common_frame_numbers cam0 cam1).
         latest cam0 n \<in> set cam0 \<and> global_frame_number (latest cam0 n) = n
       \<and> latest cam1 n \<in> set cam1 \<and> global_frame_number (latest cam1 n) = n)
   \<and> cam0_only cam0 cam1 = global_frame_number ` set cam0 - global_frame_number ` set cam1
   \<and> cam1_only cam0 cam1 = global_frame_number ` set cam1 - global_frame_number ` set cam0"
proof -
  let ?K = "global_frame_number ` set cam0 \<inter> global_frame_number ` set cam1"
  have c: "common_frame_numbers cam0 cam1 = sorted_list_of_set ?K"
    by (simp add: common_frame_numbers_def dom_frame_map)
  have s: "set (common_frame_numbers cam0 cam1) = ?K" unfolding c by simp
  have sub: "set (common_frame_numbers cam0 cam1) \<subseteq> dom (frame_map cam0) \<inter> dom (frame_map cam1)"
    unfolding s by (simp add: dom_frame_map)
  have m: "map (\<lambda>n. (the (frame_map cam0 n), the (frame_map cam1 n))) (common_frame_numbers cam0 cam1)
         = map (\<lambda>n. (latest cam0 n, latest cam1 n)) (common_frame_numbers cam0 cam1)"
    by (rule map_cong) (use s in \<open>auto simp: frame_map_last latest_def\<close>)
  have f: "find_frame_pairs cam0 cam1 =
     Inr (map (\<lambda>n. (latest cam0 n, latest cam1 n)) (common_frame_numbers cam0 cam1),
          (if cam0_only cam0 cam1 \<noteq> {} then [Cam0WithoutCam1 (card (cam0_only cam0 cam1))] else []) @
          (if cam1_only cam0 cam1 \<noteq> {} then [Cam1WithoutCam0 (card (cam1_only cam0 cam1))] else []))"
    unfolding find_frame_pairs_def Let_def make_pairs_Inr[OF sub] m by simp
  have l: "\<forall>n \<in> set (common_frame_numbers cam0 cam1).
         latest cam0 n \<in> set cam0 \<and> global_frame_number (latest cam0 n) = n
       \<and> latest cam1 n \<in> set cam1 \<and> global_frame_number (latest cam1 n) = n"
    unfolding s using latest_in by blast
  show ?thesis
    using f c s l by (simp add: cam0_only_def cam1_only_def dom_frame_map)
qed

lemma ex_keys:
  "global_frame_number ` set cam0_example = {201, 1, 101}"
  "global_frame_number ` set cam1_example = {1, 301, 101}"
  by (simp_all add: cam0_example_def cam1_example_def)

lemma ex_latest:
  "latest cam0_example 1 = cam0_example ! 1" "latest cam0_example 101 = cam0_example ! 2"
  "latest cam1_example 1 = cam1_example ! 0" "latest cam1_example 101 = cam1_example ! 2"
  by (simp_all add: latest_def cam0_example_def cam1_example_def)

theorem pairing_witness:
  "find_frame_pairs cam0_example cam1_example =
     Inr ([(cam0_example ! 1, cam1_example ! 0), (cam0_example ! 2, cam1_example ! 2)],
          [Cam0WithoutCam1 1, Cam1WithoutCam0 1])
   \<and> common_frame_numbers cam0_example cam1_example = [1, 101]
   \<and> cam0_only cam0_example cam1_example = {201}
   \<and> cam1_only cam0_example cam1_example = {301}"
proof -
  note inst = pairing[of cam0_example cam1_example]
  have k: "global_frame_number ` set cam0_example \<inter> global_frame_number ` set cam1_example = {1, 101}"
    unfolding ex_keys by auto
  have c: "common_frame_numbers cam0_example cam1_example = [1, 101]"
    using inst unfolding k by (simp add: sorted_list_of_set_insert_remove)
  have o0: "cam0_only cam0_example cam1_example = {201}"
    using inst unfolding ex_keys by auto
  have o1: "cam1_only cam0_example cam1_example = {301}"
    using inst unfolding ex_keys by auto
  from inst have "find_frame_pairs cam0_example cam1_example =
     Inr (map (\<lambda>n. (latest cam0_example n, latest cam1_example n))
            (common_frame_numbers cam0_example cam1_example),
          (if cam0_only cam0_example cam1_example \<noteq> {}
           then [Cam0WithoutCam1 (card (cam0_only cam0_example cam1_example))] else []) @
          (if cam1_only cam0_example cam1_example \<noteq> {}
           then [Cam1WithoutCam0 (card (cam1_only cam0_example cam1_example))] else []))"
    by blast
  then show ?thesis unfolding c o0 o1 using c o0 o1 by (simp add: ex_latest)
qed


section \<open>The rating\<close>

text \<open>
  C5, as the specification states it, fails: a start delay of 40 ms is rated good by
  \<open>_calculate_rating\<close>, where the specification's bands make it fair; with an average
  drift of 5 ms the function returns good, the specification's table poor.
\<close>

theorem rating_counterexample:
  "start_quality 40 = Good \<and> claimed_class \<bar>40\<bar> = Fair
   \<and> fst (calculate_rating analyzer_20 40 5 5
             \<lparr>under_10ms = 2, from_10_to_30ms = 0, from_30_to_50ms = 0, over_50ms = 0\<rparr> 2) = Good
   \<and> claimed_rating 40 5 = Poor"
  by (simp add: start_quality_def claimed_class_def calculate_rating_def drift_quality_def
      claimed_rating_def Let_def)

text \<open>
  C5, amended. The average drift is excellent below 10 ms, good below 30 ms, fair
  below 50 ms and poor from 50 ms on. The absolute start delay is excellent below
  10 ms, good below 50 ms and fair from 50 ms on. The rating is excellent when both
  are excellent, good when both are excellent or good, fair when the average drift is
  fair, and poor otherwise.
\<close>

theorem rating_table:
  "drift_quality avg = (if avg < 10 then Excellent else if avg < 30 then Good
                        else if avg < 50 then Fair else Poor)
   \<and> start_quality sd = (if \<bar>sd\<bar> < 10 then Excellent else if \<bar>sd\<bar> < 50 then Good else Fair)
   \<and> fst (calculate_rating self sd avg mx buckets n) =
       (if drift_quality avg = Excellent \<and> start_quality sd = Excellent then Excellent
        else if drift_quality avg \<in> {Excellent, Good} \<and> start_quality sd \<in> {Excellent, Good}
        then Good
        else if drift_quality avg = Fair then Fair
        else Poor)
   \<and> fst (calculate_rating self sd avg mx buckets n) =
       (if avg < 10 \<and> \<bar>sd\<bar> < 10 then Excellent
        else if avg < 30 \<and> \<bar>sd\<bar> < 50 then Good
        else if 30 \<le> avg \<and> avg < 50 then Fair
        else Poor)"
  by (simp add: start_quality_def calculate_rating_def drift_quality_def Let_def)


section \<open>Insufficient timestamp data\<close>

lemma length_intervals_ms: "length (intervals_ms ts) = length ts - 1"
  by (induction ts rule: intervals_ms.induct) auto

lemma py_min_ok: "xs \<noteq> [] \<Longrightarrow> \<exists>m. py_min xs = Inr m"
  by (cases xs) (auto simp: py_min_def)

lemma py_max_ok: "xs \<noteq> [] \<Longrightarrow> \<exists>m. py_max xs = Inr m"
  by (cases xs) (auto simp: py_max_def)

lemma mean_ok: "xs \<noteq> [] \<Longrightarrow> \<exists>m. mean xs = Inr m"
  by (auto simp: mean_def)

lemma stats_short:
  "length ts < 2 \<Longrightarrow>
   calculate_timestamp_stats stdev ts = Inl (ValueError ''Need at least 2 timestamps for analysis'')"
  by (simp add: calculate_timestamp_stats_def)

lemma stats_long:
  assumes "2 \<le> length ts"
  shows "\<exists>stats. calculate_timestamp_stats stdev ts = Inr stats"
proof -
  from assms have ne: "intervals_ms ts \<noteq> []"
    using length_intervals_ms[of ts] by (cases "intervals_ms ts") auto
  from mean_ok[OF ne] py_min_ok[OF ne] py_max_ok[OF ne] assms
  show ?thesis
    by (auto simp: calculate_timestamp_stats_def Let_def)
qed

text \<open>
  C6. \<open>calculate_timestamp_stats\<close> raises its \<open>ValueError\<close> exactly on a series of
  fewer than 2 records, and returns statistics on every other series. When either
  camera's series has fewer than 2 records, \<open>analyze_sync_quality\<close> raises that
  \<open>ValueError\<close>, \<open>analyze_all_segments\<close> raises a \<open>ValueError\<close>, and \<open>main\<close> catches
  it: the analysis is \<open>None\<close> and the run goes on.
\<close>

theorem insufficient_timestamp_data:
  "(calculate_timestamp_stats stdev ts
      = Inl (ValueError ''Need at least 2 timestamps for analysis'') \<longleftrightarrow> length ts < 2)
   \<and> ((\<exists>stats. calculate_timestamp_stats stdev ts = Inr stats) \<longleftrightarrow> 2 \<le> length ts)
   \<and> (length cam0 < 2 \<or> length cam1 < 2 \<longrightarrow>
        analyze_sync_quality stdev self cam0 cam1
          = Inl (ValueError ''Need at least 2 timestamps for analysis'')
        \<and> (\<exists>msg. analyze_all_segments stdev self cam0 cam1 = Inl (ValueError msg))
        \<and> main_sync_analysis enabled stdev self cam0 cam1 = None)"
proof (intro conjI impI)
  show "(calculate_timestamp_stats stdev ts
      = Inl (ValueError ''Need at least 2 timestamps for analysis'') \<longleftrightarrow> length ts < 2)"
    using stats_short[of ts stdev] stats_long[of ts stdev] by (cases "length ts < 2") auto
  show "(\<exists>stats. calculate_timestamp_stats stdev ts = Inr stats) \<longleftrightarrow> 2 \<le> length ts"
    using stats_short[of ts stdev] stats_long[of ts stdev] by (cases "length ts < 2") auto
next
  assume short: "length cam0 < 2 \<or> length cam1 < 2"
  show q: "analyze_sync_quality stdev self cam0 cam1
          = Inl (ValueError ''Need at least 2 timestamps for analysis'')"
  proof (cases "length cam0 < 2")
    case True
    then show ?thesis by (simp add: analyze_sync_quality_def stats_short)
  next
    case False
    with short have c1: "length cam1 < 2" by simp
    from False obtain stats0 where "calculate_timestamp_stats stdev cam0 = Inr stats0"
      using stats_long[of cam0 stdev] by auto
    with c1 show ?thesis
      by (simp add: analyze_sync_quality_def stats_short)
  qed
  then show a: "\<exists>msg. analyze_all_segments stdev self cam0 cam1 = Inl (ValueError msg)"
    by (simp add: analyze_all_segments_def)
  then show "main_sync_analysis enabled stdev self cam0 cam1 = None"
    by (auto simp: main_sync_analysis_def)
qed

theorem insufficient_timestamp_data_witness:
  "length one_record < 2
   \<and> analyze_sync_quality (\<lambda>xs. 0) analyzer_20 one_record series1
       = Inl (ValueError ''Need at least 2 timestamps for analysis'')
   \<and> main_sync_analysis True (\<lambda>xs. 0) analyzer_20 one_record series1 = None"
  using insufficient_timestamp_data[of "\<lambda>xs. 0" one_record one_record series1 analyzer_20 True]
  by (simp add: one_record_def)


section \<open>Isolation of a failing task\<close>










section \<open>Drift sampling\<close>

lemma py_index_in_range:
  "0 \<le> i \<Longrightarrow> i < int (length xs) \<Longrightarrow> py_index xs i = Inr (xs ! nat i)"
  by (simp add: py_index_def)

lemma drift_loop_Inr:
  assumes "\<forall>idx \<in> set idxs. 0 \<le> idx \<and> idx < int (length cam0) \<and> idx < int (length cam1)"
  shows "drift_loop cam0 cam1 idxs =
         Inr (map (\<lambda>idx. \<bar>drift_ms_at cam0 cam1 idx\<bar>) idxs, map (sample_at cam0 cam1) idxs)"
  using assms
proof (induction idxs)
  case Nil
  then show ?case by simp
next
  case (Cons idx rest)
  then have r: "0 \<le> idx" "idx < int (length cam0)" "idx < int (length cam1)" by simp_all
  then have z: "(0::int) < int (length cam0)" "(0::int) < int (length cam1)" by linarith+
  from Cons have ih: "drift_loop cam0 cam1 rest =
         Inr (map (\<lambda>idx. \<bar>drift_ms_at cam0 cam1 idx\<bar>) rest, map (sample_at cam0 cam1) rest)"
    by simp
  show ?case
    using py_index_in_range[OF r(1) r(2)] py_index_in_range[OF r(1) r(3)]
          py_index_in_range[OF order_refl z(1)] py_index_in_range[OF order_refl z(2)]
    by (simp add: ih Let_def sample_at_def drift_ms_at_def seconds_since_start_def)
qed

lemma step_indices_in_range:
  fixes m n :: int
  assumes "1 \<le> n" "n < m" "0 \<le> i" "i \<le> n - 1"
  shows "0 \<le> i * (m div n) \<and> i * (m div n) < m"
proof -
  have s: "1 \<le> m div n" using assms(1,2) by (simp add: le_div_iff_mult_le)
  have "(m div n) * n \<le> m" using le_div_iff_mult_le[OF assms(1), of "m div n" m] by simp
  then have "n * (m div n) \<le> m" by (simp add: mult.commute)
  moreover have "i * (m div n) \<le> (n - 1) * (m div n)"
    using assms(4) s by (intro mult_right_mono) simp_all
  moreover have "(n - 1) * (m div n) = n * (m div n) - (m div n)" by (simp add: algebra_simps)
  ultimately have "i * (m div n) < m" using s by linarith
  moreover have "0 \<le> i * (m div n)" using assms(3) s by simp
  ultimately show ?thesis by simp
qed

lemma claimed_indices_in_range:
  assumes "1 \<le> n" "idx \<in> set (claimed_indices m n)"
  shows "0 \<le> idx \<and> idx < m"
proof (cases "m \<le> n")
  case True
  with assms(2) show ?thesis by (simp add: claimed_indices_def)
next
  case False
  with assms(2) obtain i where i: "0 \<le> i" "i \<le> n - 1" "idx = i * (m div n)"
    by (auto simp: claimed_indices_def)
  from False have "n < m" by simp
  from step_indices_in_range[OF assms(1) this i(1) i(2)] i(3) show ?thesis by simp
qed

lemma sample_indices_claimed:
  "1 \<le> sample_points self \<Longrightarrow> sample_indices self m = Inr (claimed_indices m (sample_points self))"
  by (simp add: sample_indices_def claimed_indices_def)

lemma length_claimed_indices:
  "1 \<le> n \<Longrightarrow> 0 \<le> m \<Longrightarrow> int (length (claimed_indices m n)) = min m n"
  by (simp add: claimed_indices_def)

text \<open>
  C8. With at least one sample point and two non-empty series, \<open>analyze_time_drift\<close>
  returns, and it samples the indices the specification states, in that order: every
  index below \<open>m\<close> when \<open>m\<close> is at most the number of sample points, and otherwise the
  multiples \<open>i * (m div n)\<close> for \<open>i\<close> below the number \<open>n\<close> of sample points. All of them
  are indices of both series. The drift recorded for an index is the difference of
  the two timestamps at that index; the average, the maximum, the deviation and the
  buckets are taken over the absolute drifts.
\<close>

theorem drift_sampling:
  assumes "1 \<le> sample_points self" and "cam0 \<noteq> []" and "cam1 \<noteq> []"
  shows "\<exists>avg mx.
     analyze_time_drift stdev self cam0 cam1 =
       Inr (avg, mx,
            (if 1 < length (claimed_indices (min (int (length cam0)) (int (length cam1)))
                          (sample_points self))
             then stdev (map (\<lambda>idx. \<bar>drift_ms_at cam0 cam1 idx\<bar>)
                     (claimed_indices (min (int (length cam0)) (int (length cam1)))
                        (sample_points self)))
             else 0),
            drift_buckets (map (\<lambda>idx. \<bar>drift_ms_at cam0 cam1 idx\<bar>)
               (claimed_indices (min (int (length cam0)) (int (length cam1))) (sample_points self))),
            map (sample_at cam0 cam1)
               (claimed_indices (min (int (length cam0)) (int (length cam1))) (sample_points self)))
     \<and> mean (map (\<lambda>idx. \<bar>drift_ms_at cam0 cam1 idx\<bar>)
           (claimed_indices (min (int (length cam0)) (int (length cam1))) (sample_points self)))
         = Inr avg
     \<and> py_max (map (\<lambda>idx. \<bar>drift_ms_at cam0 cam1 idx\<bar>)
           (claimed_indices (min (int (length cam0)) (int (length cam1))) (sample_points self)))
         = Inr mx
     \<and> (\<forall>idx \<in> set (claimed_indices (min (int (length cam0)) (int (length cam1)))
                       (sample_points self)).
           0 \<le> idx \<and> idx < min (int (length cam0)) (int (length cam1)))
     \<and> int (length (claimed_indices (min (int (length cam0)) (int (length cam1)))
                       (sample_points self)))
         = min (min (int (length cam0)) (int (length cam1))) (sample_points self)"
proof -
  let ?m = "min (int (length cam0)) (int (length cam1))"
  let ?ix = "claimed_indices ?m (sample_points self)"
  let ?drifts = "map (\<lambda>idx. \<bar>drift_ms_at cam0 cam1 idx\<bar>) ?ix"
  have m: "1 \<le> ?m" using assms(2,3) by (cases cam0; cases cam1) simp_all
  have rng: "\<forall>idx \<in> set ?ix. 0 \<le> idx \<and> idx < ?m"
    using claimed_indices_in_range[OF assms(1)] by blast
  then have "\<forall>idx \<in> set ?ix. 0 \<le> idx \<and> idx < int (length cam0) \<and> idx < int (length cam1)"
    by auto
  from drift_loop_Inr[OF this]
  have loop: "drift_loop cam0 cam1 ?ix = Inr (?drifts, map (sample_at cam0 cam1) ?ix)" .
  have len: "int (length ?ix) = min ?m (sample_points self)"
    using length_claimed_indices[OF assms(1), of ?m] m by simp
  then have "0 < length ?ix" using m assms(1) by linarith
  then have ne: "?drifts \<noteq> []" by simp
  from mean_ok[OF ne] obtain avg where avg: "mean ?drifts = Inr avg" by blast
  from py_max_ok[OF ne] obtain mx where mx: "py_max ?drifts = Inr mx" by blast
  have "analyze_time_drift stdev self cam0 cam1 =
       Inr (avg, mx, (if 1 < length ?ix then stdev ?drifts else 0),
            drift_buckets ?drifts, map (sample_at cam0 cam1) ?ix)"
    by (simp add: analyze_time_drift_def Let_def sample_indices_claimed[OF assms(1)] loop avg mx)
  with avg mx rng len show ?thesis by blast
qed


lemma five_indices: "claimed_indices (min (int (length five_cam0)) (int (length five_cam1))) 2 = [0, 2]"
  by (simp add: claimed_indices_def five_cam0_def five_cam1_def upto_rec1)

lemma five_drifts: "drift_ms_at five_cam0 five_cam1 0 = 0" "drift_ms_at five_cam0 five_cam1 2 = - 2"
  by code_simp+

theorem drift_sampling_witness:
  "1 \<le> sample_points analyzer_2 \<and> five_cam0 \<noteq> [] \<and> five_cam1 \<noteq> []
   \<and> map fst (snd (snd (snd (snd (projr
         (analyze_time_drift (\<lambda>xs. 0) analyzer_2 five_cam0 five_cam1)))))) = [0, 2]
   \<and> map (\<lambda>s. snd (snd (snd s))) (snd (snd (snd (snd (projr
         (analyze_time_drift (\<lambda>xs. 0) analyzer_2 five_cam0 five_cam1)))))) = [0, - 2]
   \<and> fst (snd (snd (snd (projr
         (analyze_time_drift (\<lambda>xs. 0) analyzer_2 five_cam0 five_cam1)))))
       = \<lparr>under_10ms = 2, from_10_to_30ms = 0, from_30_to_50ms = 0, over_50ms = 0\<rparr>"
proof -
  have a: "1 \<le> sample_points analyzer_2" by (simp add: analyzer_2_def)
  have b: "five_cam0 \<noteq> []" "five_cam1 \<noteq> []" by (simp_all add: five_cam0_def five_cam1_def)
  have sp: "sample_points analyzer_2 = 2" by (simp add: analyzer_2_def)
  from drift_sampling[OF a b, of "\<lambda>xs. 0"] obtain avg mx where
    "analyze_time_drift (\<lambda>xs. 0) analyzer_2 five_cam0 five_cam1 =
       Inr (avg, mx, 0,
            drift_buckets (map (\<lambda>idx. \<bar>drift_ms_at five_cam0 five_cam1 idx\<bar>) [0, 2]),
            map (sample_at five_cam0 five_cam1) [0, 2])"
    unfolding sp five_indices by auto
  then show ?thesis
    using a b by (simp add: sample_at_def five_drifts drift_buckets_def)
qed


section \<open>The drift buckets\<close>

lemma bucket_partition:
  "length (filter (\<lambda>d. d < 10) xs) + length (filter (\<lambda>d. 10 \<le> d \<and> d < 30) xs)
   + length (filter (\<lambda>d. 30 \<le> d \<and> d < 50) xs) + length (filter (\<lambda>d. d \<ge> 50) xs)
   = length (xs :: real list)"
  by (induction xs) auto

lemma drift_loop_lengths:
  "drift_loop c0 c1 idxs = Inr (drifts, samples) \<Longrightarrow>
   length drifts = length idxs \<and> length samples = length idxs"
proof (induction idxs arbitrary: drifts samples)
  case Nil
  then show ?case by simp
next
  case (Cons idx rest)
  then show ?case
    by (auto simp: Let_def split: sum.splits prod.splits)
qed

text \<open>
  C9. The four bucket counts of any list of drifts sum to the length of the list; in
  a result of \<open>analyze_time_drift\<close> they sum to the number of samples.
\<close>

theorem drift_bucket_totals:
  "bucket_total (drift_buckets drifts) = length drifts
   \<and> (analyze_time_drift stdev self c0 c1 = Inr (avg, mx, sd, buckets, samples)
        \<longrightarrow> bucket_total buckets = length samples)"
proof
  show t: "bucket_total (drift_buckets drifts) = length drifts" for drifts
    using bucket_partition[of drifts] by (simp add: bucket_total_def drift_buckets_def)
  show "analyze_time_drift stdev self c0 c1 = Inr (avg, mx, sd, buckets, samples)
        \<longrightarrow> bucket_total buckets = length samples"
  proof
    assume a: "analyze_time_drift stdev self c0 c1 = Inr (avg, mx, sd, buckets, samples)"
    then obtain idxs drifts where
      l: "drift_loop c0 c1 idxs = Inr (drifts, samples)" and b: "buckets = drift_buckets drifts"
      by (auto simp: analyze_time_drift_def Let_def split: sum.splits prod.splits)
    from drift_loop_lengths[OF l] t[of drifts] b show "bucket_total buckets = length samples"
      by simp
  qed
qed

lemma fl_small_ints:
  "fl 0 = 0" "fl 1 = 1" "fl 2 = 2" "fl 8 = 8" "fl 508 = 508" "fl 1008 = 1008" "fl (-8) = -8" "fl (-1008) = - 1008"
  by code_simp+

lemma analyze_time_drift_example: "analyze_time_drift (\<lambda>xs. 0) analyzer_20 series0 series1 =
   Inr (508, 1008, 0, \<lparr>under_10ms = 1, from_10_to_30ms = 0, from_30_to_50ms = 0, over_50ms = 1\<rparr>,
      [(0, 0, 0, -8), (1, 1, 2, -1008)])"
  by (simp add: analyze_time_drift_def analyzer_20_def series0_def series1_def sample_indices_def
      py_index_def mean_def py_max_def drift_buckets_def fl_small_ints upto_rec1 Let_def)


theorem drift_bucket_totals_witness:
  "analyze_time_drift (\<lambda>xs. 0) analyzer_20 series0 series1 =
     Inr (508, 1008, 0,
          \<lparr>under_10ms = 1, from_10_to_30ms = 0, from_30_to_50ms = 0, over_50ms = 1\<rparr>,
          [(0, 0, 0, -8), (1, 1, 2, -1008)])
   \<and> bucket_total \<lparr>under_10ms = 1, from_10_to_30ms = 0, from_30_to_50ms = 0, over_50ms = 1\<rparr>
       = length [(0 :: int, 0 :: real, 0 :: real, -8 :: real), (1, 1, 2, -1008)]"
  using drift_bucket_totals[of "[]" "\<lambda>xs. 0" analyzer_20 series0 series1 508 1008 0
          "\<lparr>under_10ms = 1, from_10_to_30ms = 0, from_30_to_50ms = 0, over_50ms = 1\<rparr>"
          "[(0, 0, 0, -8), (1, 1, 2, -1008)]"]
        analyze_time_drift_example
  by simp

section \<open>Rounding\<close>

lemma floorlog2_nat_bounds:
  assumes "0 < n"
  shows "(2::real) ^ (floorlog 2 n - 1) \<le> of_nat n" "of_nat n + 1 \<le> (2::real) ^ floorlog 2 n"
    "0 < floorlog 2 n"
proof -
  from floorlog_bounds[of n 2] assms
  have b: "2 ^ (floorlog 2 n - 1) \<le> n" "n < 2 ^ floorlog 2 n" by simp_all
  from b(1) have "real (2 ^ (floorlog 2 n - 1)) \<le> real n" by (rule of_nat_mono)
  then show "(2::real) ^ (floorlog 2 n - 1) \<le> of_nat n" by simp
  from b(2) have "Suc n \<le> 2 ^ floorlog 2 n" by simp
  then have "real (Suc n) \<le> real (2 ^ floorlog 2 n)" by (rule of_nat_mono)
  then show "of_nat n + 1 \<le> (2::real) ^ floorlog 2 n" by simp
  show "0 < floorlog 2 n" using assms by (simp add: floorlog_def)
qed

lemma floor_log2_ge1:
  fixes x :: real
  assumes "1 \<le> x"
  shows "2 powi (floor_log2 x) \<le> x \<and> x < 2 powi (floor_log2 x + 1)"
proof -
  let ?n = "nat \<lfloor>x\<rfloor>"
  have n: "0 < ?n" using assms by simp
  have fx: "real ?n \<le> x" "x < real ?n + 1" using assms by linarith+
  note b = floorlog2_nat_bounds[OF n]
  have L: "floor_log2 x = int (floorlog 2 ?n) - 1" using assms by (simp add: floor_log2_def)
  have p1: "(2::real) powi (int (floorlog 2 ?n) - 1) = 2 ^ (floorlog 2 ?n - 1)"
    using b(3) by (simp add: power_int_def nat_diff_distrib')
  have p2: "(2::real) powi (int (floorlog 2 ?n) - 1 + 1) = 2 ^ floorlog 2 ?n"
    by (simp add: power_int_def)
  show ?thesis unfolding L p1 p2 using b fx by linarith
qed

lemma floor_log2_lt1:
  fixes x :: real
  assumes "0 < x" "x < 1"
  shows "2 powi (floor_log2 x) \<le> x \<and> x < 2 powi (floor_log2 x + 1)"
proof -
  let ?y = "1 / x"
  let ?n = "nat \<lfloor>?y\<rfloor>"
  have y: "1 < ?y" using assms by simp
  have n: "0 < ?n" using y by simp
  have fy: "real ?n \<le> ?y" "?y < real ?n + 1" using y by linarith+
  note b = floorlog2_nat_bounds[OF n]
  define k where "k = floorlog 2 ?n - 1"
  have k1: "floorlog 2 ?n = Suc k" using b(3) by (simp add: k_def)
  have lo: "(2::real) ^ k \<le> ?y" using b(1) fy(1) unfolding k_def by (rule order_trans)
  have hi: "?y < (2::real) ^ Suc k" using b(2) fy(2) unfolding k1 by linarith
  from lo assms(1) have xle: "x * 2 ^ k \<le> 1" by (simp add: field_simps)
  from hi assms(1) have xgt: "1 < x * 2 ^ Suc k" by (simp add: field_simps)
  have pk: "(2::real) powi (int k) = 2 ^ k" by simp
  have pmk: "(2::real) powi (- int k) = 1 / 2 ^ k" by (simp add: power_int_minus field_simps)
  have pmk1: "(2::real) powi (- (int k + 1)) = 1 / 2 ^ Suc k"
    by (simp add: power_int_def nat_add_distrib field_simps)
  have pmk2: "(2::real) powi (- int k + 1) = 2 / 2 ^ k"
  proof (cases k)
    case 0
    then show ?thesis by simp
  next
    case (Suc j)
    then have "- int k + 1 = - int j" by simp
    then show ?thesis using Suc by (simp add: power_int_minus field_simps)
  qed
  have ik: "int (floorlog 2 ?n) - 1 = int k" using k1 by simp
  show ?thesis
  proof (cases "x * 2 ^ k = 1")
    case True
    then have L: "floor_log2 x = - int k"
      using assms by (simp add: floor_log2_def Let_def ik)
    from True have xe: "x = 1 / 2 ^ k" by (simp add: field_simps)
    show ?thesis unfolding L pmk pmk2 using xe assms(1) by (simp add: field_simps)
  next
    case False
    then have L: "floor_log2 x = - (int k + 1)"
      using assms by (simp add: floor_log2_def Let_def ik)
    have l1: "- (int k + 1) + 1 = - int k" by simp
    from False xle have "x * 2 ^ k < 1" by simp
    then have a: "x < 1 / 2 ^ k" by (simp add: field_simps)
    from xgt have b': "1 / 2 ^ Suc k < x" by (simp add: field_simps)
    show ?thesis unfolding L l1 pmk pmk1 using a b' by simp
  qed
qed

lemma floor_log2_bounds:
  fixes x :: real
  assumes "0 < x"
  shows "2 powi (floor_log2 x) \<le> x \<and> x < 2 powi (floor_log2 x + 1)"
  using floor_log2_ge1[of x] floor_log2_lt1[of x] assms by (cases "1 \<le> x") auto

lemma round_half_even_error: "\<bar>of_int (round_half_even x) - x\<bar> \<le> 1 / 2"
  unfolding round_half_even_def Let_def by (auto; linarith)


lemma floor_log2_normal:
  fixes x :: real
  assumes "min_normal \<le> x"
  shows "- 1022 \<le> floor_log2 x"
proof (rule ccontr)
  assume "\<not> - 1022 \<le> floor_log2 x"
  then have "floor_log2 x + 1 \<le> - 1022" by simp
  then have "(2::real) powi (floor_log2 x + 1) \<le> min_normal"
    unfolding min_normal_def by (intro power_int_increasing) simp_all
  moreover have "0 < min_normal" unfolding min_normal_def by (rule zero_less_power_int) simp
  then have "0 < x" using assms by linarith
  ultimately show False using floor_log2_bounds[of x] assms by linarith
qed

lemma fl_error:
  assumes "x = 0 \<or> min_normal \<le> \<bar>x\<bar>"
  shows "\<bar>fl x - x\<bar> \<le> \<bar>x\<bar> / 2 ^ 53"
proof (cases "x = 0")
  case True
  then show ?thesis by (simp add: fl_def)
next
  case False
  define L where "L = floor_log2 \<bar>x\<bar>"
  define e where "e = L - 52"
  define s where "s = \<bar>x\<bar> / 2 powi e"
  have pe: "(0::real) < 2 powi e" by simp
  from False have "0 < \<bar>x\<bar>" by simp
  from floor_log2_bounds[OF this] have lo: "2 powi L \<le> \<bar>x\<bar>" by (simp add: L_def)
  from False assms have "- 1022 \<le> L" unfolding L_def by (intro floor_log2_normal) simp
  then have mx: "max (floor_log2 \<bar>x\<bar> - 52) (- 1074) = e" by (simp add: e_def L_def)
  have "(2::real) powi L = 2 powi (e + 52) " by (simp add: e_def)
  also have "\<dots> = 2 powi e * 2 ^ 52" by (simp add: power_int_add)
  finally have pL: "(2::real) powi L = 2 powi e * 2 ^ 52" .
  have f: "fl x = sgn x * of_int (round_half_even s) * 2 powi e"
    using False unfolding fl_def Let_def mx s_def by simp
  have x: "x = sgn x * s * 2 powi e"
    using pe by (simp add: s_def sgn_mult_abs)
  have "fl x - x = sgn x * (of_int (round_half_even s) - s) * 2 powi e"
    by (subst f, subst (2) x) (simp add: algebra_simps)
  then have "\<bar>fl x - x\<bar> = \<bar>of_int (round_half_even s) - s\<bar> * 2 powi e"
    using False by (simp add: abs_mult abs_sgn_eq)
  also have "\<dots> \<le> 1 / 2 * 2 powi e"
    using round_half_even_error[of s] pe by (intro mult_right_mono) simp_all
  also have "\<dots> \<le> \<bar>x\<bar> / 2 ^ 53"
    using lo unfolding pL by (simp add: field_simps)
  finally show ?thesis .
qed

lemma fl_zero [simp]: "fl 0 = 0"
  by (simp add: fl_def)

lemma round_half_even_nonneg: "0 \<le> x \<Longrightarrow> 0 \<le> round_half_even x"
  by (simp add: round_half_even_def Let_def)

lemma fl_nonneg:
  assumes "0 \<le> x"
  shows "0 \<le> fl x"
proof (cases "x = 0")
  case True
  then show ?thesis by simp
next
  case False
  with assms have "0 < x" by simp
  then show ?thesis
    unfolding fl_def Let_def using round_half_even_nonneg[of "\<bar>x\<bar> / 2 powi max (floor_log2 \<bar>x\<bar> - 52) (- 1074)"]
    by simp
qed

lemma two_roundings:
  fixes x :: real
  assumes "0 \<le> x" and "x = 0 \<or> min_normal \<le> x"
  shows "\<bar>fl (fl x * 100) - x * 100\<bar> \<le> x * 100 / 2 ^ 51" and "fl x \<le> 2 * x"
proof -
  define u :: real where "u = 1 / 2 ^ 53"
  have u: "0 \<le> u" "u \<le> 1 / 2" "4 * u = 1 / 2 ^ 51" by (simp_all add: u_def)
  define q where "q = fl x"
  have q0: "0 \<le> q" unfolding q_def by (rule fl_nonneg[OF assms(1)])
  have "x = 0 \<or> min_normal \<le> \<bar>x\<bar>" using assms by auto
  from fl_error[OF this] have e1: "\<bar>q - x\<bar> \<le> x * u" using assms(1) by (simp add: q_def u_def)
  define a where "a = x * u"
  have xu: "0 \<le> a" using assms(1) u(1) unfolding a_def by simp
  have "x * u \<le> x * (1 / 2)" using u(2) assms(1) by (rule mult_left_mono)
  then have a2: "2 * a \<le> x" unfolding a_def by simp
  from e1 have q1: "x - a \<le> q" "q \<le> x + a" unfolding a_def by (simp_all add: abs_le_iff)
  show "fl x \<le> 2 * x" using q1(2) a2 xu unfolding q_def by linarith
  have "q * 100 = 0 \<or> min_normal \<le> \<bar>q * 100\<bar>"
  proof (cases "x = 0")
    case True
    then show ?thesis by (simp add: q_def)
  next
    case False
    with assms(2) have "min_normal \<le> x" by simp
    moreover have "x \<le> q * 100" using q1(1) a2 xu by linarith
    ultimately show ?thesis using q0 by simp
  qed
  from fl_error[OF this] have e2: "\<bar>fl (q * 100) - q * 100\<bar> \<le> q * 100 * u"
    using q0 by (simp add: u_def)
  have auu: "a * u \<le> a" using xu u(1,2) by (simp add: mult_left_le)
  have "q * 100 * u \<le> (x + a) * 100 * u"
    using q1(2) u(1) by (intro mult_right_mono) simp_all
  also have "\<dots> = 100 * a + 100 * (a * u)" by (simp add: algebra_simps a_def)
  also have "\<dots> \<le> 200 * a" using auu by linarith
  finally have e3: "q * 100 * u \<le> 200 * a" .
  define F where "F = fl (q * 100)"
  define b where "b = q * 100 * u"
  from e2 have f1: "q * 100 - b \<le> F" "F \<le> q * 100 + b"
    unfolding b_def F_def by (simp_all add: abs_le_iff)
  from e3 have b1: "b \<le> 200 * a" unfolding b_def .
  have "F - x * 100 \<le> 300 * a" "x * 100 - F \<le> 300 * a" using q1 f1 b1 by linarith+
  then have "\<bar>F - x * 100\<bar> \<le> 300 * a" by (simp add: abs_le_iff)
  also have "300 * a \<le> x * 100 * (4 * u)" using xu unfolding a_def by (simp add: algebra_simps)
  finally have "\<bar>fl (fl x * 100) - x * 100\<bar> \<le> x * 100 * (4 * u)" unfolding F_def q_def .
  then show "\<bar>fl (fl x * 100) - x * 100\<bar> \<le> x * 100 / 2 ^ 51" unfolding u(3) by simp
qed

lemma quotient_normal:
  fixes d m :: int
  assumes "0 \<le> d" "d \<le> m" "0 < m" "m < 2 ^ 1022"
  shows "real_of_int d / real_of_int m = 0 \<or> min_normal \<le> real_of_int d / real_of_int m"
    and "real_of_int d / real_of_int m \<le> 1"
proof -
  define P :: real where "P = 2 ^ 1022"
  have P: "0 < P" unfolding P_def by (rule zero_less_power) simp
  have mn: "min_normal = 1 / P"
    unfolding min_normal_def P_def by (simp only: power_int_minus nat_numeral power_int_numeral inverse_eq_divide)
  have "real_of_int m < real_of_int (2 ^ 1022)" using assms(4) by (simp only: of_int_less_iff)
  then have mP: "real_of_int m \<le> P" unfolding P_def by (simp only: of_int_power of_int_numeral less_imp_le)
  have m0: "0 < real_of_int m" using assms(3) by simp
  show "real_of_int d / real_of_int m \<le> 1" using assms(2) m0 by simp
  show "real_of_int d / real_of_int m = 0 \<or> min_normal \<le> real_of_int d / real_of_int m"
  proof (cases "d = 0")
    case True
    then show ?thesis by simp
  next
    case False
    with assms(1) have "1 \<le> real_of_int d" by simp
    then have "1 / real_of_int m \<le> real_of_int d / real_of_int m"
      using m0 by (intro divide_right_mono) simp_all
    moreover have "1 / P \<le> 1 / real_of_int m" using mP m0 by (intro divide_left_mono) simp_all
    ultimately show ?thesis unfolding mn by linarith
  qed
qed

section \<open>The frame count difference\<close>

text \<open>
  C10, as stated in exact arithmetic, fails: for the totals 100 and 93 the rounded
  quotient times 100 is a double above 7, so the function says that a threshold of 7
  is exceeded, and the exact percentage is 7.
\<close>

lemma overflow_bound_gt: "2 < overflow_bound"
  by (simp add: overflow_bound_def)

theorem frame_count_difference_counterexample:
  "validate_frame_count_difference 100 93 7
     = Inr (True, 7881299347898369 / 1125899906842624, 7)
   \<and> \<not> 7 < exact_difference_percent 100 93"
proof -
  have q: "fl (7 / 100) = 1261007895663739 / 18014398509481984"
    by code_simp
  have p: "fl (31525197391593475 / 4503599627370496) = 7881299347898369 / 1125899906842624"
    by code_simp
  have "\<not> overflow_bound \<le> \<bar>1261007895663739 / 18014398509481984\<bar>"
    using overflow_bound_gt by simp
  then have "int_truediv 7 100 = Inr (1261007895663739 / 18014398509481984)"
    by (simp add: int_truediv_def q)
  then have "validate_frame_count_difference 100 93 7
     = Inr (True, 7881299347898369 / 1125899906842624, 7)"
    by (simp add: validate_frame_count_difference_def fmul_def p)
  moreover have "\<not> 7 < exact_difference_percent 100 93"
    by (simp add: exact_difference_percent_def)
  ultimately show ?thesis by simp
qed

text \<open>
  C10, amended. For non-negative totals below \<open>2^1022\<close> and a non-negative threshold
  the function returns, with the absolute difference of the totals, the double
  \<open>fl (fl (|cam0 - cam1| / max) * 100)\<close> (0 when both totals are 0), and it says that
  the threshold is exceeded exactly when this double is above it. The double is
  within a relative error of \<open>2^-51\<close> of the exact percentage: an exact percentage
  above the threshold by more than that margin is reported as exceeding, and a
  reported excess means that the exact percentage is above the threshold up to that
  margin.
\<close>

theorem frame_count_difference:
  assumes "0 \<le> cam0_total" "0 \<le> cam1_total" "0 \<le> threshold"
    and "cam0_total < 2 ^ 1022" "cam1_total < 2 ^ 1022"
  shows "\<exists>pct. validate_frame_count_difference cam0_total cam1_total threshold
                 = Inr (threshold < pct, pct, \<bar>cam0_total - cam1_total\<bar>)
          \<and> (cam0_total = 0 \<and> cam1_total = 0 \<longrightarrow> pct = 0)
          \<and> (cam0_total \<noteq> 0 \<or> cam1_total \<noteq> 0 \<longrightarrow>
                pct = fl (fl (of_int \<bar>cam0_total - cam1_total\<bar> / of_int (max cam0_total cam1_total))
                          * 100))
          \<and> \<bar>pct - exact_difference_percent cam0_total cam1_total\<bar>
                \<le> exact_difference_percent cam0_total cam1_total / 2 ^ 51
          \<and> (threshold < exact_difference_percent cam0_total cam1_total * (1 - 1 / 2 ^ 51)
                \<longrightarrow> threshold < pct)
          \<and> (threshold < pct
                \<longrightarrow> threshold < exact_difference_percent cam0_total cam1_total * (1 + 1 / 2 ^ 51))"
proof (cases "cam0_total = 0 \<and> cam1_total = 0")
  case True
  with assms(3) show ?thesis
    by (intro exI[of _ 0]) (simp add: validate_frame_count_difference_def exact_difference_percent_def)
next
  case False
  let ?d = "\<bar>cam0_total - cam1_total\<bar>"
  let ?m = "max cam0_total cam1_total"
  let ?x = "real_of_int ?d / real_of_int ?m"
  let ?E = "exact_difference_percent cam0_total cam1_total"
  let ?pct = "fl (fl ?x * 100)"
  from False assms(1,2) have m: "0 < ?m" by auto
  have dm: "0 \<le> ?d" "?d \<le> ?m" using assms(1,2) by auto
  have mb: "?m < 2 ^ 1022" using assms(4,5) by (simp only: max_less_iff_conj)
  note qn = quotient_normal[OF dm m mb]
  have x0: "0 \<le> ?x" using m by simp
  have E: "?E = ?x * 100" by (simp only: exact_difference_percent_def)
  note tr = two_roundings[OF x0 qn(1)]
  have "fl ?x \<le> 2" using tr(2) qn(2) by linarith
  moreover have "0 \<le> fl ?x" by (rule fl_nonneg[OF x0])
  moreover note overflow_bound_gt
  ultimately have no: "\<not> overflow_bound \<le> \<bar>fl ?x\<bar>" by linarith
  have v: "validate_frame_count_difference cam0_total cam1_total threshold
             = Inr (threshold < ?pct, ?pct, ?d)"
  proof -
    from m have m0: "?m \<noteq> 0" by simp
    have "int_truediv ?d ?m = Inr (fl ?x)"
      unfolding int_truediv_def using m0 no by (simp only: if_False)
    then show ?thesis
      unfolding validate_frame_count_difference_def Let_def fmul_def
      using False m0 by (simp only: if_False sum.case)
  qed
  have err: "\<bar>?pct - ?E\<bar> \<le> ?E / 2 ^ 51" unfolding E by (rule tr(1))
  define eps where "eps = ?E / 2 ^ 51"
  have es: "?E * (1 - 1 / 2 ^ 51) = ?E - eps" "?E * (1 + 1 / 2 ^ 51) = ?E + eps"
    by (simp_all add: eps_def algebra_simps)
  from err have err': "\<bar>?pct - ?E\<bar> \<le> eps" unfolding eps_def .
  then have b: "?E - eps \<le> ?pct" "?pct \<le> ?E + eps" by linarith+
  have up: "threshold < ?E * (1 - 1 / 2 ^ 51) \<longrightarrow> threshold < ?pct"
    unfolding es using b(1) by linarith
  have dn: "threshold < ?pct \<longrightarrow> threshold < ?E * (1 + 1 / 2 ^ 51)"
    unfolding es using b(2) by linarith
  show ?thesis
    using v err up dn False by (intro exI[of _ ?pct]) blast
qed

text \<open>
  Above the bound the quotient underflows: for a total of \<open>2^1076\<close> or more and the
  total just below it (as \<open>2^1100\<close> and \<open>2^1100 - 1\<close>) the percentage is the double 0,
  and a threshold of 0 is not exceeded.
\<close>

lemma fl_underflow:
  fixes x :: real
  assumes "0 < x" "x \<le> 2 powi (- 1076)"
  shows "fl x = 0"
proof -
  have L: "floor_log2 \<bar>x\<bar> \<le> - 1076"
  proof (rule ccontr)
    assume "\<not> floor_log2 \<bar>x\<bar> \<le> - 1076"
    then have "- 1076 + 1 \<le> floor_log2 \<bar>x\<bar>" by simp
    then have "(2::real) powi (- 1076 + 1) \<le> 2 powi (floor_log2 \<bar>x\<bar>)"
      by (intro power_int_increasing) simp_all
    moreover have "(2::real) powi (- 1076) < 2 powi (- 1076 + 1)"
      by (intro power_int_strict_increasing) simp_all
    ultimately show False using floor_log2_bounds[of "\<bar>x\<bar>"] assms by simp
  qed
  then have e: "max (floor_log2 \<bar>x\<bar> - 52) (- 1074) = - 1074" by simp
  define s where "s = \<bar>x\<bar> / 2 powi (- 1074)"
  have "(2::real) powi (- 1074 + - 2) = 2 powi (- 1074) * 2 powi (- 2)"
    by (rule power_int_add) simp
  then have "(2::real) powi (- 1076) = 2 powi (- 1074) * 2 powi (- 2)"
    by (simp only: add_neg_numeral_simps numeral_plus_numeral) simp_all
  then have "\<bar>x\<bar> \<le> 2 powi (- 1074) * (1 / 4)" using assms by (simp add: power_int_minus)
  moreover have p: "(0::real) < 2 powi (- 1074)" by (rule zero_less_power_int) simp
  ultimately have "s \<le> 1 / 4" unfolding s_def by (simp add: pos_divide_le_eq mult.commute)
  moreover have "0 \<le> s" unfolding s_def using p by simp
  ultimately have "\<lfloor>s\<rfloor> = 0" "s < 1 / 2" by (simp_all add: floor_eq_iff)
  then have "round_half_even s = 0" by (simp add: round_half_even_def Let_def)
  then show ?thesis unfolding fl_def Let_def e s_def[symmetric] by simp
qed

lemma frame_count_difference_underflow:
  assumes "2 ^ 1076 \<le> m"
  shows "validate_frame_count_difference m (m - 1) 0 = Inr (False, 0, 1)"
proof -
  define P :: real where "P = 2 ^ 1076"
  have P: "0 < P" unfolding P_def by (rule zero_less_power) simp
  have "real_of_int (2 ^ 1076) \<le> real_of_int m" using assms by (simp only: of_int_le_iff)
  then have mP: "P \<le> real_of_int m" unfolding P_def by (simp only: of_int_power of_int_numeral)
  then have m0: "0 < real_of_int m" using P by linarith
  then have mi: "0 < m" by simp
  have pw: "2 powi (- 1076) = 1 / P"
    unfolding P_def by (simp only: power_int_minus nat_numeral power_int_numeral inverse_eq_divide)
  have "1 / real_of_int m \<le> 1 / P" using mP P by (intro divide_left_mono) simp_all
  then have x: "0 < 1 / real_of_int m" "1 / real_of_int m \<le> 2 powi (- 1076)"
    using m0 unfolding pw by simp_all
  have q: "fl (1 / real_of_int m) = 0" by (rule fl_underflow[OF x])
  have d: "\<bar>m - (m - 1)\<bar> = 1" "max m (m - 1) = m" by simp_all
  have "int_truediv 1 m = Inr 0"
    using mi overflow_bound_gt by (simp add: int_truediv_def q)
  then show ?thesis
    using mi by (simp add: validate_frame_count_difference_def d fmul_def)
qed

lemma docstring_example:
  "validate_frame_count_difference 15000 14200 5
     = Inr (True, 3002399751580331 / 562949953421312, 800)"
  "validate_frame_count_difference 0 0 5 = Inr (False, 0, 0)"
  by code_simp+

theorem frame_count_difference_witness:
  "(0::int) \<le> 15000 \<and> (0::int) \<le> 14200 \<and> (0::real) \<le> 5
   \<and> (15000::int) < 2 ^ 1022 \<and> (14200::int) < 2 ^ 1022
   \<and> 5 < exact_difference_percent 15000 14200 * (1 - 1 / 2 ^ 51)
   \<and> fst (projr (validate_frame_count_difference 15000 14200 5))
   \<and> validate_frame_count_difference 15000 14200 5
       = Inr (True, 3002399751580331 / 562949953421312, 800)
   \<and> validate_frame_count_difference 0 0 5 = Inr (False, 0, 0)"
proof -
  have e: "5 < exact_difference_percent 15000 14200 * (1 - 1 / 2 ^ 51)"
    by (simp add: exact_difference_percent_def)
  from frame_count_difference[of 15000 14200 5] obtain pct where
    v: "validate_frame_count_difference 15000 14200 5 = Inr (5 < pct, pct, \<bar>15000 - 14200\<bar>)"
    and up: "5 < exact_difference_percent 15000 14200 * (1 - 1 / 2 ^ 51) \<longrightarrow> 5 < pct"
    by auto
  from up e have "5 < pct" by blast
  with v have "fst (projr (validate_frame_count_difference 15000 14200 5))" by simp
  with e show ?thesis by (simp add: docstring_example)
qed


end
